theory Spec2Isabelle
  imports Complex_Main "HOL-Library.Finite_Map"
begin

section \<open>Python values\<close>

text \<open>
  The values that travel through the two modules.  A Python \<open>str\<close> that is only compared
  for equality (action names, parameter names, locators, exception class names) is a
  \<^typ>\<open>string\<close>; a list value is \<open>PSeq\<close> (it is not hashable).
\<close>

datatype pyval = PNone | PBool bool | PInt int | PStr string | PSeq "pyval list"

section \<open>browser_automation.py: the call repetition guard\<close>

subsection \<open>FunctionCall and FunctionCallTracker\<close>

text \<open>
  \<open>FunctionCall\<close> is the dataclass of lines 17 to 23.  The timestamp is the value of
  \<open>time.time()\<close>, in seconds; it is a real number here.  \<open>kwargs\<close> is a dict, compared
  with \<open>==\<close>, hence a finite map.  For a decorated method the positional arguments start
  with \<open>self\<close>; there is one driver object, so it is left out of \<open>args\<close>.
\<close>

record function_call =
  func_name :: string
  args :: "pyval list"
  kwargs :: "(string, pyval) fmap"
  timestamp :: real

text \<open>
  \<open>FunctionCallTracker.__init__\<close> (lines 27 to 30): \<open>call_history\<close> is a
  \<open>deque(maxlen=max_history)\<close>, oldest entry first.
\<close>

record function_call_tracker =
  call_history :: "function_call list"
  max_history :: nat
  threshold_ms :: int
  max_repeats :: int

definition new_tracker :: "nat \<Rightarrow> int \<Rightarrow> int \<Rightarrow> function_call_tracker" where
  "new_tracker mh th mr =
     \<lparr>call_history = [], max_history = mh, threshold_ms = th, max_repeats = mr\<rparr>"

definition default_tracker :: function_call_tracker where
  "default_tracker = new_tracker 15 30000 3"

text \<open>\<open>deque.append\<close> on a deque with \<open>maxlen\<close>: the oldest entries fall out on the left.\<close>

definition deque_append :: "nat \<Rightarrow> 'a list \<Rightarrow> 'a \<Rightarrow> 'a list" where
  "deque_append maxlen xs x = drop (length (xs @ [x]) - maxlen) (xs @ [x])"

subsection \<open>count_recent_duplicates (lines 79 to 106)\<close>

definition same_call :: "function_call \<Rightarrow> function_call \<Rightarrow> bool" where
  "same_call prev_call current_call \<longleftrightarrow>
     func_name prev_call = func_name current_call \<and>
     args prev_call = args current_call \<and>
     kwargs prev_call = kwargs current_call"

text \<open>
  The \<open>for\<close> loop over \<open>reversed(self.call_history)\<close>, with its two \<open>break\<close>s; the third
  argument is the loop variable \<open>count\<close>.
\<close>

fun scan_history :: "int \<Rightarrow> function_call \<Rightarrow> nat \<Rightarrow> function_call list \<Rightarrow> nat" where
  "scan_history th current_call count [] = count"
| "scan_history th current_call count (prev_call # rest) =
     (if (timestamp current_call - timestamp prev_call) * 1000 > real_of_int th then count
      else if same_call prev_call current_call
           then scan_history th current_call (count + 1) rest
      else count)"

definition count_recent_duplicates :: "function_call_tracker \<Rightarrow> function_call \<Rightarrow> nat" where
  "count_recent_duplicates tr current_call =
     (if call_history tr = [] then 0
      else scan_history (threshold_ms tr) current_call 0 (rev (call_history tr)))"

subsection \<open>The wrapper built by \<open>__call__\<close> (lines 32 to 77)\<close>

text \<open>
  The warning text is an f-string over the function name, the threshold, the repeat count
  and the arguments; it is kept as the record of these parts.
\<close>

record warning_msg =
  w_func_name :: string
  w_threshold_ms :: int
  w_repeat_count :: nat
  w_args :: "pyval list"
  w_kwargs :: "(string, pyval) fmap"

text \<open>
  What a call of a driver operation does: it returns a value, it returns the warning text
  in place of a value, it raises \<open>RepeatedCallError\<close>, or it raises another exception
  (named by its class).
\<close>

datatype call_outcome =
    Returned pyval
  | ReturnedWarning warning_msg
  | RaisedRepeatedCall warning_msg
  | Raised string

fun is_raise :: "call_outcome \<Rightarrow> bool" where
  "is_raise (Returned v) = False"
| "is_raise (ReturnedWarning m) = False"
| "is_raise (RaisedRepeatedCall m) = True"
| "is_raise (Raised e) = True"

fun is_repeated_call :: "call_outcome \<Rightarrow> bool" where
  "is_repeated_call (RaisedRepeatedCall m) = True"
| "is_repeated_call out = False"

abbreviation mk_call :: "string \<Rightarrow> pyval list \<Rightarrow> (string, pyval) fmap \<Rightarrow> real \<Rightarrow> function_call" where
  "mk_call name as kw t \<equiv> \<lparr>func_name = name, args = as, kwargs = kw, timestamp = t\<rparr>"

abbreviation mk_warning ::
  "function_call_tracker \<Rightarrow> string \<Rightarrow> nat \<Rightarrow> pyval list \<Rightarrow> (string, pyval) fmap \<Rightarrow> warning_msg" where
  "mk_warning tr name n as kw \<equiv>
     \<lparr>w_func_name = name, w_threshold_ms = threshold_ms tr, w_repeat_count = n,
      w_args = as, w_kwargs = kw\<rparr>"

abbreviation record_call :: "function_call_tracker \<Rightarrow> function_call \<Rightarrow> function_call_tracker" where
  "record_call tr call \<equiv>
     tr\<lparr>call_history := deque_append (max_history tr) (call_history tr) call\<rparr>"

text \<open>
  The decorated function \<open>func\<close> works on the outside world \<open>'w\<close>.  The wrapper reads the
  clock first (\<open>current_time\<close>), counts, and then takes one of three paths: raise without
  calling \<open>func\<close> and without appending; append, call \<open>func\<close>, and return the warning (an
  exception of \<open>func\<close> still propagates); append and return what \<open>func\<close> returns.
\<close>

definition wrapper ::
  "function_call_tracker \<Rightarrow> string \<Rightarrow>
   (pyval list \<Rightarrow> (string, pyval) fmap \<Rightarrow> 'w \<Rightarrow> call_outcome \<times> 'w) \<Rightarrow>
   real \<Rightarrow> pyval list \<Rightarrow> (string, pyval) fmap \<Rightarrow> 'w \<Rightarrow>
   call_outcome \<times> function_call_tracker \<times> 'w" where
  "wrapper tr name func current_time as kw w =
     (let call = mk_call name as kw current_time;
          repeat_count = count_recent_duplicates tr call;
          msg = mk_warning tr name repeat_count as kw
      in if int repeat_count \<ge> max_repeats tr then (RaisedRepeatedCall msg, tr, w)
         else if int repeat_count = max_repeats tr - 1 then
           (let tr' = record_call tr call;
                (r, w') = func as kw w
            in (if is_raise r then r else ReturnedWarning msg, tr', w'))
         else
           (let tr' = record_call tr call;
                (r, w') = func as kw w
            in (r, tr', w')))"

text \<open>
  A caller that invokes the same guarded operation with the same arguments once per clock
  reading in the list, going on after an exception (as the planning loop of the agent does).
\<close>

fun call_repeatedly ::
  "string \<Rightarrow> (pyval list \<Rightarrow> (string, pyval) fmap \<Rightarrow> 'w \<Rightarrow> call_outcome \<times> 'w) \<Rightarrow>
   pyval list \<Rightarrow> (string, pyval) fmap \<Rightarrow> real list \<Rightarrow> function_call_tracker \<Rightarrow> 'w \<Rightarrow>
   call_outcome list \<times> function_call_tracker \<times> 'w" where
  "call_repeatedly name func as kw [] tr w = ([], tr, w)"
| "call_repeatedly name func as kw (t # ts) tr w =
     (case wrapper tr name func t as kw w of
        (out, tr', w') \<Rightarrow>
          (case call_repeatedly name func as kw ts tr' w' of
             (outs, tr'', w'') \<Rightarrow> (out # outs, tr'', w'')))"

text \<open>
  The clock readings of a run of calls that all lie in one window: every later reading is
  at most \<open>th\<close> milliseconds after every earlier one.
\<close>

fun within_window :: "int \<Rightarrow> real list \<Rightarrow> bool" where
  "within_window th [] = True"
| "within_window th (t # ts) =
     ((\<forall>u \<in> set ts. (u - t) * 1000 \<le> real_of_int th) \<and> within_window th ts)"

text \<open>
  What the \<open>i\<close>-th call (from 0) of such a run gives, on a guard that has already recorded
  \<open>k\<close> of these calls and has \<open>max_repeats = M\<close>: the operation's own outcome, then the
  warning, then \<open>RepeatedCallError\<close>.  \<open>exec_world\<close> is the effect of one execution of the
  operation on the world.
\<close>

definition exec_world ::
  "(pyval list \<Rightarrow> (string, pyval) fmap \<Rightarrow> 'w \<Rightarrow> call_outcome \<times> 'w) \<Rightarrow>
   pyval list \<Rightarrow> (string, pyval) fmap \<Rightarrow> 'w \<Rightarrow> 'w" where
  "exec_world func as kw w = snd (func as kw w)"

definition expected_outcome ::
  "function_call_tracker \<Rightarrow> string \<Rightarrow>
   (pyval list \<Rightarrow> (string, pyval) fmap \<Rightarrow> 'w \<Rightarrow> call_outcome \<times> 'w) \<Rightarrow>
   pyval list \<Rightarrow> (string, pyval) fmap \<Rightarrow> 'w \<Rightarrow> nat \<Rightarrow> nat \<Rightarrow> nat \<Rightarrow> call_outcome" where
  "expected_outcome tr name func as kw w M k i =
     (if k + i < M - 1 then fst (func as kw ((exec_world func as kw ^^ i) w))
      else if k + i = M - 1 then ReturnedWarning (mk_warning tr name (M - 1) as kw)
      else RaisedRepeatedCall (mk_warning tr name M as kw))"

text \<open>
  An operation for concrete runs: it returns the number of times it has run before, and
  the world is that number.
\<close>

definition counting_op :: "pyval list \<Rightarrow> (string, pyval) fmap \<Rightarrow> nat \<Rightarrow> call_outcome \<times> nat" where
  "counting_op as kw n = (Returned (PInt (int n)), Suc n)"

abbreviation click_a :: "real \<Rightarrow> function_call" where
  "click_a t \<equiv> mk_call ''click_element'' [PStr ''//a''] fmempty t"

subsection \<open>BrowserAutomation: which methods carry the guard\<close>

text \<open>
  Each \<open>@FunctionCallTracker()\<close> line builds a tracker of its own, with the default
  settings, for the method under it: \<open>go_to_url\<close> (202), \<open>open_tab\<close> (226), \<open>close_tab\<close>
  (246), \<open>go_back\<close> (278), \<open>click_element\<close> (313), \<open>input_text\<close> (345) and
  \<open>click_to_upload\<close> (752).  Every other method, \<open>scroll_down\<close> (362) and \<open>scroll_up\<close>
  (370) among them, is called directly.
\<close>

definition guarded_methods :: "string list" where
  "guarded_methods =
     [''go_to_url'', ''open_tab'', ''close_tab'', ''go_back'', ''click_element'',
      ''input_text'', ''click_to_upload'']"

text \<open>
  The driver object: one tracker per guarded method and the page \<open>'p\<close> behind it.  The
  method bodies act on the page through DrissionPage; they are the parameter \<open>body\<close>.
\<close>

record 'p browser_automation =
  trackers :: "string \<Rightarrow> function_call_tracker"
  page :: 'p

definition new_browser :: "'p \<Rightarrow> 'p browser_automation" where
  "new_browser p = \<lparr>trackers = (\<lambda>m. default_tracker), page = p\<rparr>"

definition call_method ::
  "(string \<Rightarrow> pyval list \<Rightarrow> (string, pyval) fmap \<Rightarrow> 'p \<Rightarrow> call_outcome \<times> 'p) \<Rightarrow>
   string \<Rightarrow> real \<Rightarrow> pyval list \<Rightarrow> (string, pyval) fmap \<Rightarrow> 'p browser_automation \<Rightarrow>
   call_outcome \<times> 'p browser_automation" where
  "call_method body m current_time as kw b =
     (if m \<in> set guarded_methods then
        (case wrapper (trackers b m) m (body m) current_time as kw (page b) of
           (out, tr', p') \<Rightarrow> (out, b\<lparr>trackers := (trackers b)(m := tr'), page := p'\<rparr>))
      else
        (case body m as kw (page b) of
           (out, p') \<Rightarrow> (out, b\<lparr>page := p'\<rparr>)))"

text \<open>The same method with the same arguments, once per clock reading.\<close>

fun call_method_repeatedly ::
  "(string \<Rightarrow> pyval list \<Rightarrow> (string, pyval) fmap \<Rightarrow> 'p \<Rightarrow> call_outcome \<times> 'p) \<Rightarrow>
   string \<Rightarrow> pyval list \<Rightarrow> (string, pyval) fmap \<Rightarrow> real list \<Rightarrow> 'p browser_automation \<Rightarrow>
   call_outcome list \<times> 'p browser_automation" where
  "call_method_repeatedly body m as kw [] b = ([], b)"
| "call_method_repeatedly body m as kw (t # ts) b =
     (case call_method body m t as kw b of
        (out, b') \<Rightarrow>
          (case call_method_repeatedly body m as kw ts b' of
             (outs, b'') \<Rightarrow> (out # outs, b'')))"

text \<open>Method bodies for concrete runs: every method returns \<open>None\<close> and counts the call.\<close>

definition counting_body ::
  "string \<Rightarrow> pyval list \<Rightarrow> (string, pyval) fmap \<Rightarrow> nat \<Rightarrow> call_outcome \<times> nat" where
  "counting_body m as kw n = (Returned PNone, Suc n)"

section \<open>browser_control_agent.py: the control loop\<close>

subsection \<open>Plans, results and the shared run state\<close>

text \<open>
  A plan is the dict that the planner returns: its \<open>action\<close> entry (any YAML value) and its
  \<open>params\<close> entry, which may be missing, a dict, a string, a list, or a value that supports
  neither \<open>in\<close> nor \<open>.get\<close> (\<open>None\<close>, a number).
\<close>

datatype params_val =
    PmAbsent
  | PmDict "string \<rightharpoonup> pyval"
  | PmStr string
  | PmSeq "pyval list"
  | PmScalar

record plan =
  action :: pyval
  params :: params_val

text \<open>
  The result of the execute node: the value of the driver method, the guard's warning text
  (a \<open>str\<close>), or the dict with \<open>error: True\<close> and an \<open>error_type\<close>; the dicts built at lines
  552 to 558 also carry the action and the parameters.  The \<open>message\<close> entry is formatted
  text and is not modelled.
\<close>

datatype op_result =
    Value pyval
  | WarningText warning_msg
  | Failure string "(pyval \<times> params_val) option"

fun is_error :: "op_result \<Rightarrow> bool" where
  "is_error (Failure e d) = True"
| "is_error r = False"

fun error_type :: "op_result \<Rightarrow> string" where
  "error_type (Failure e d) = e"
| "error_type r = []"

record history_record =
  operation :: plan
  result :: op_result

text \<open>
  Text produced or read by the oracle is a list of Unicode code points, since the observer
  searches it.  The final messages are the literals of lines 692 and 707 (maximum number
  of iterations reached), 702 (task completed, followed by the oracle's answer), 756
  (completed, no summary available), 758 and 765 (task completed), and the summary text.
\<close>

type_synonym pystr = "nat list"

datatype final_msg =
    MaxIterationsReached
  | TaskCompleted pystr
  | Summary pystr
  | SummaryUnavailable
  | TaskDone

record browser_env =
  open_tabs :: "string list"
  current_tab :: string
  interactive_elements :: "string list"

text \<open>
  The dict \<open>shared\<close>.  A missing \<open>retry_count\<close> or \<open>iteration\<close> is read with default 0
  everywhere, so both are numbers; the other entries may be missing or \<open>None\<close>.
\<close>

record shared =
  task :: string
  browser_env :: "browser_env option"
  planned_operation :: "plan option"
  operation_result :: "op_result option"
  operation_history :: "history_record list option"
  retry_count :: nat
  last_failed_operation :: "plan option"
  iteration :: nat
  final_message :: "final_msg option"

text \<open>The dict that \<open>main\<close> starts the run with (lines 824 to 831).\<close>

definition initial_shared :: "string \<Rightarrow> shared" where
  "initial_shared t =
     \<lparr>task = t, browser_env = None, planned_operation = None, operation_result = None,
      operation_history = Some [], retry_count = 0, last_failed_operation = None,
      iteration = 0, final_message = None\<rparr>"

subsection \<open>What is serialised into the prompts\<close>

text \<open>
  \<open>safe_record\<close>: the operation and \<open>str(result)\<close>; the text of a result is kept as the
  result it renders.  The same conversion is written out at lines 132 to 137, 657 to 662
  and 733 to 738.
\<close>

datatype rendered = StrOf op_result

record safe_record =
  sr_operation :: plan
  sr_result :: rendered

definition safe_history :: "history_record list \<Rightarrow> safe_record list" where
  "safe_history h = map (\<lambda>r. \<lparr>sr_operation = operation r, sr_result = StrOf (result r)\<rparr>) h"

text \<open>
  The planner's prompt is built from \<open>safe_data(data)\<close> (lines 115 to 148) and from the
  failure context in \<open>data\<close>; the record keeps the parts, not the YAML text.  Lines 144 to
  147 keep the last five history entries.
\<close>

record planner_prompt =
  pp_task :: string
  pp_env :: "browser_env option"
  pp_last_op :: "plan option"
  pp_op_result :: "op_result option"
  pp_operation_history :: "safe_record list"
  pp_last_failed_operation :: "plan option"
  pp_retry_count :: nat

definition safe_data_history :: "history_record list \<Rightarrow> safe_record list" where
  "safe_data_history h =
     (if length (safe_history h) > 5
      then drop (length (safe_history h) - 5) (safe_history h)
      else safe_history h)"

definition plan_prompt :: "shared \<Rightarrow> planner_prompt" where
  "plan_prompt sh =
     \<lparr>pp_task = task sh, pp_env = browser_env sh, pp_last_op = planned_operation sh,
      pp_op_result = operation_result sh,
      pp_operation_history =
        safe_data_history (case operation_history sh of None \<Rightarrow> [] | Some h \<Rightarrow> h),
      pp_last_failed_operation = last_failed_operation sh,
      pp_retry_count = retry_count sh\<rparr>"

text \<open>
  The observer's judgement prompt (lines 656 to 675): \<open>yaml.dump(safe_history)\<close> of the
  whole list.  The finish node's summary prompt (line 741) dumps \<open>safe_history[-5:]\<close>.
\<close>

record judge_prompt =
  jp_task :: string
  jp_operation_history :: "safe_record list"
  jp_env :: "browser_env option"

definition completion_prompt :: "string \<Rightarrow> history_record list \<Rightarrow> browser_env option \<Rightarrow> judge_prompt" where
  "completion_prompt t h env =
     \<lparr>jp_task = t, jp_operation_history = safe_history h, jp_env = env\<rparr>"

record summary_prompt =
  sp_task :: string
  sp_operation_history :: "safe_record list"

definition summary_prompt_of :: "string \<Rightarrow> history_record list \<Rightarrow> summary_prompt" where
  "summary_prompt_of t h =
     \<lparr>sp_task = t,
      sp_operation_history = drop (length (safe_history h) - 5) (safe_history h)\<rparr>"

subsection \<open>The outside world\<close>

text \<open>
  Everything the loop calls outside itself, as functions on a world \<open>'w\<close>:
  \<^item> \<open>perceive\<close>: lines 156 to 161 (tabs, title, clickable elements, pause, highlight
    removal); \<open>None\<close> when the driver raises;
  \<^item> \<open>plan_attempt\<close>: one pass through the \<open>try\<close> body of lines 332 to 398 (oracle call,
    fence stripping, YAML parsing, locator check with its one relaxation): an exception,
    a document that is not a dict with an \<open>action\<close>, or the plan returned at line 398;
  \<^item> \<open>driver\<close>: \<open>getattr(browser, method_name)(*args)\<close>;
  \<^item> \<open>judge\<close> and \<open>summarize\<close>: \<open>call_llm\<close> on the judgement and summary prompts; the
    answer may be \<open>None\<close>, and the call may raise;
  \<^item> \<open>sleep\<close>: \<open>asyncio.sleep(1)\<close>.
\<close>

datatype attempt = AttemptRaised | AttemptInvalid | AttemptPlan plan

datatype 'a reply = Reply 'a | ReplyRaised

record 'w externals =
  perceive :: "'w \<Rightarrow> browser_env option \<times> 'w"
  plan_attempt :: "planner_prompt \<Rightarrow> 'w \<Rightarrow> attempt \<times> 'w"
  driver :: "string \<Rightarrow> pyval list \<Rightarrow> 'w \<Rightarrow> call_outcome \<times> 'w"
  judge :: "judge_prompt \<Rightarrow> 'w \<Rightarrow> pystr option reply \<times> 'w"
  summarize :: "summary_prompt \<Rightarrow> 'w \<Rightarrow> pystr option reply \<times> 'w"
  sleep :: "'w \<Rightarrow> 'w"

text \<open>An exception that leaves a node ends the run; it is named by its class.\<close>

datatype crash = Escaped string

datatype label = Default | Success | Error | Retry | Continue | Finish

subsection \<open>AsyncGetBrowserEnv (lines 151 to 173)\<close>

definition get_browser_env ::
  "'w externals \<Rightarrow> shared \<Rightarrow> 'w \<Rightarrow> crash + (label option \<times> shared \<times> 'w)" where
  "get_browser_env X sh w =
     (case perceive X w of
        (None, w') \<Rightarrow> Inl (Escaped ''Exception'')
      | (Some env, w') \<Rightarrow> Inr (Some Default, sh\<lparr>browser_env := Some env\<rparr>, w'))"

subsection \<open>AsyncPlanOperation (lines 176 to 418)\<close>

definition default_plan :: plan where
  "default_plan =
     \<lparr>action = PStr ''scroll_down'', params = PmDict [''pixel'' \<mapsto> PInt 300]\<rparr>"

text \<open>
  The \<open>for attempt in range(max_retries)\<close> loop of lines 329 to 414.  An invalid document
  continues without a pause, and on the last attempt raises \<open>ValueError\<close> into the
  \<open>except\<close> branch; an exception pauses and continues, and on the last attempt returns the
  default plan.
\<close>

function plan_loop :: "'w externals \<Rightarrow> planner_prompt \<Rightarrow> nat \<Rightarrow> nat \<Rightarrow> 'w \<Rightarrow> plan \<times> 'w" where
  "plan_loop X prompt max_retries attempt w =
     (if attempt \<ge> max_retries then (default_plan, w)
      else
        (case plan_attempt X prompt w of
           (AttemptPlan p, w') \<Rightarrow> (p, w')
         | (AttemptInvalid, w') \<Rightarrow>
             (if attempt < max_retries - 1
              then plan_loop X prompt max_retries (attempt + 1) w'
              else (default_plan, w'))
         | (AttemptRaised, w') \<Rightarrow>
             (if attempt < max_retries - 1
              then plan_loop X prompt max_retries (attempt + 1) (sleep X w')
              else (default_plan, w'))))"
  by pat_completeness auto
termination
  by (relation "measure (\<lambda>(X, prompt, max_retries, attempt, w). max_retries - attempt)") auto

declare plan_loop.simps [simp del]

definition plan_operation ::
  "'w externals \<Rightarrow> shared \<Rightarrow> 'w \<Rightarrow> crash + (label option \<times> shared \<times> 'w)" where
  "plan_operation X sh w =
     (if task sh = [] then Inl (Escaped ''Exception'')
      else
        (case plan_loop X (plan_prompt sh) 3 0 w of
           (p, w') \<Rightarrow> Inr (Some Default, sh\<lparr>planned_operation := Some p\<rparr>, w')))"

subsection \<open>AsyncExecuteOperation (lines 421 to 624)\<close>

text \<open>
  An entry of \<open>_operation_map\<close>.  Every \<open>args_map\<close> is a list of \<open>params.get(key, default)\<close>
  calls, kept as the list of keys with their defaults (\<open>None\<close> where none is written).
\<close>

record op_config =
  method_name :: string
  required_params :: "string list"
  optional_params :: "string list"
  args_map :: "(string \<times> pyval) list"

definition operation_map :: "(string \<times> op_config) list" where
  "operation_map =
     [(''click_element'',
        \<lparr>method_name = ''click_element'', required_params = [''xpath''], optional_params = [],
         args_map = [(''xpath'', PNone)]\<rparr>),
      (''click_to_upload'',
        \<lparr>method_name = ''click_to_upload'', required_params = [''xpath'', ''file_paths''],
         optional_params = [], args_map = [(''xpath'', PNone), (''file_paths'', PNone)]\<rparr>),
      (''input_text'',
        \<lparr>method_name = ''input_text'', required_params = [''xpath'', ''text''], optional_params = [],
         args_map = [(''xpath'', PNone), (''text'', PNone)]\<rparr>),
      (''send_keys'',
        \<lparr>method_name = ''send_keys'', required_params = [''xpath'', ''keys''], optional_params = [],
         args_map = [(''xpath'', PNone), (''keys'', PNone)]\<rparr>),
      (''scroll_down'',
        \<lparr>method_name = ''scroll_down'', required_params = [], optional_params = [''pixel''],
         args_map = [(''pixel'', PInt 300)]\<rparr>),
      (''scroll_up'',
        \<lparr>method_name = ''scroll_up'', required_params = [], optional_params = [''pixel''],
         args_map = [(''pixel'', PInt 300)]\<rparr>),
      (''go_to_url'',
        \<lparr>method_name = ''go_to_url'', required_params = [''url''], optional_params = [],
         args_map = [(''url'', PNone)]\<rparr>),
      (''go_back'',
        \<lparr>method_name = ''go_back'', required_params = [], optional_params = [], args_map = []\<rparr>),
      (''open_tab'',
        \<lparr>method_name = ''open_tab'', required_params = [''url''], optional_params = [],
         args_map = [(''url'', PNone)]\<rparr>),
      (''close_tab'',
        \<lparr>method_name = ''close_tab'', required_params = [], optional_params = [], args_map = []\<rparr>),
      (''switch_tab'',
        \<lparr>method_name = ''switch_tab'', required_params = [], optional_params = [''title'', ''url''],
         args_map = [(''title'', PNone), (''url'', PNone)]\<rparr>)]"

text \<open>
  \<open>action in self._operation_map\<close>: only a string can be a key of the table (a list is
  not hashable and raises before this point, see \<open>exec_async\<close>).
\<close>

definition lookup_operation :: "pyval \<Rightarrow> op_config option" where
  "lookup_operation a = (case a of PStr s \<Rightarrow> map_of operation_map s | _ \<Rightarrow> None)"

text \<open>\<open>sub in s\<close> on sequences of characters.\<close>

fun starts_with :: "'a list \<Rightarrow> 'a list \<Rightarrow> bool" where
  "starts_with [] ys = True"
| "starts_with (x # xs) [] = False"
| "starts_with (x # xs) (y # ys) = (x = y \<and> starts_with xs ys)"

fun contains :: "'a list \<Rightarrow> 'a list \<Rightarrow> bool" where
  "contains sub [] = (sub = [])"
| "contains sub (y # ys) = (starts_with sub (y # ys) \<or> contains sub ys)"

text \<open>Lines 509 to 513: the default \<open>{}\<close> and the treatment of a string.\<close>

definition normalise_params :: "pyval \<Rightarrow> params_val \<Rightarrow> params_val" where
  "normalise_params a ps =
     (case ps of
        PmAbsent \<Rightarrow> PmDict Map.empty
      | PmStr s \<Rightarrow>
          (if a \<in> set (map PStr [''click_element'', ''click_to_upload'', ''input_text'',
                                   ''send_keys''])
           then PmDict [''xpath'' \<mapsto> PStr s] else PmDict Map.empty)
      | _ \<Rightarrow> ps)"

text \<open>
  \<open>_validate_params_by_config\<close> (lines 571 to 576): the class of the exception raised, if
  any.  \<open>param not in params\<close> is a key test on a dict, an element test on a list, a
  substring test on a string, and a \<open>TypeError\<close> on the other values.
\<close>

fun validate_params_by_config :: "params_val \<Rightarrow> string list \<Rightarrow> string option" where
  "validate_params_by_config ps [] = None"
| "validate_params_by_config ps (param # rest) =
     (case ps of
        PmDict m \<Rightarrow>
          (if m param = None then Some ''ValueError'' else validate_params_by_config ps rest)
      | PmSeq xs \<Rightarrow>
          (if PStr param \<notin> set xs then Some ''ValueError''
           else validate_params_by_config ps rest)
      | PmStr s \<Rightarrow>
          (if \<not> contains param s then Some ''ValueError''
           else validate_params_by_config ps rest)
      | PmAbsent \<Rightarrow> Some ''ValueError''
      | PmScalar \<Rightarrow> Some ''TypeError'')"

text \<open>
  Applying \<open>args_map\<close>: with no key nothing is read from \<open>params\<close>; otherwise \<open>params.get\<close>
  exists on a dict only.
\<close>

definition extract_args :: "params_val \<Rightarrow> (string \<times> pyval) list \<Rightarrow> string + pyval list" where
  "extract_args ps keys =
     (if keys = [] then Inr []
      else
        (case ps of
           PmDict m \<Rightarrow> Inr (map (\<lambda>(k, d). case m k of None \<Rightarrow> d | Some v \<Rightarrow> v) keys)
         | _ \<Rightarrow> Inl ''AttributeError''))"

text \<open>
  Lines 536 to 558: the value of the driver method is the result; an exception becomes the
  error dict with the name of its class.
\<close>

fun outcome_result :: "pyval \<Rightarrow> params_val \<Rightarrow> call_outcome \<Rightarrow> op_result" where
  "outcome_result a ps (Returned v) = Value v"
| "outcome_result a ps (ReturnedWarning m) = WarningText m"
| "outcome_result a ps (RaisedRepeatedCall m) = Failure ''RepeatedCallError'' (Some (a, ps))"
| "outcome_result a ps (Raised e) = Failure e (Some (a, ps))"

definition exec_async :: "'w externals \<Rightarrow> plan \<Rightarrow> 'w \<Rightarrow> crash + (op_result \<times> 'w)" where
  "exec_async X op w =
     (let a = action op;
          ps = normalise_params a (params op)
      in case a of
           PSeq xs \<Rightarrow> Inl (Escaped ''TypeError'')
         | _ \<Rightarrow>
           (case lookup_operation a of
              None \<Rightarrow> Inr (Failure ''unknown_action'' None, w)
            | Some op_config \<Rightarrow>
                (case validate_params_by_config ps (required_params op_config) of
                   Some e \<Rightarrow> Inr (Failure ''parameter_validation'' None, w)
                 | None \<Rightarrow>
                     (case extract_args ps (args_map op_config) of
                        Inl e \<Rightarrow> Inr (Failure e (Some (a, ps)), w)
                      | Inr as \<Rightarrow>
                          (case driver X (method_name op_config) as w of
                             (out, w') \<Rightarrow> Inr (outcome_result a ps out, w'))))))"

text \<open>
  \<open>post_async\<close> (lines 580 to 624).  On an error both branches return before the history
  is touched.  On success the record is appended when \<open>shared\<close> has a history; lines 611
  to 616 rewrite a string \<open>params\<close> inside the plan object, which is also the object
  stored as \<open>planned_operation\<close>.
\<close>

definition transient_errors :: "string list" where
  "transient_errors = [''ConnectionError'', ''TimeoutError'', ''NetworkError'']"

definition record_params :: "plan \<Rightarrow> plan" where
  "record_params op =
     (case params op of
        PmStr s \<Rightarrow>
          (if action op \<in> set (map PStr [''click_element'', ''input_text'', ''send_keys''])
           then op\<lparr>params := PmDict [''xpath'' \<mapsto> PStr s]\<rparr> else op)
      | _ \<Rightarrow> op)"

definition execute_post ::
  "'w externals \<Rightarrow> shared \<Rightarrow> plan \<Rightarrow> op_result \<Rightarrow> 'w \<Rightarrow> label \<times> shared \<times> 'w" where
  "execute_post X sh prep_res exec_res w =
     (let sh1 = sh\<lparr>operation_result := Some exec_res\<rparr> in
      if is_error exec_res then
        (let sh2 = sh1\<lparr>last_failed_operation := Some prep_res,
                       retry_count := retry_count sh1 + 1\<rparr>
         in if error_type exec_res \<in> set transient_errors \<and> retry_count sh2 \<le> 3
            then (Retry, sh2, sleep X w)
            else (Error, sh2, w))
      else
        (let sh2 = sh1\<lparr>retry_count := 0, last_failed_operation := None\<rparr>
         in case operation_history sh2 of
              None \<Rightarrow> (Success, sh2, w)
            | Some h \<Rightarrow>
                (Success,
                 sh2\<lparr>planned_operation := Some (record_params prep_res),
                     operation_history :=
                       Some (h @ [\<lparr>operation = record_params prep_res, result = exec_res\<rparr>])\<rparr>,
                 w)))"

definition execute_operation ::
  "'w externals \<Rightarrow> shared \<Rightarrow> 'w \<Rightarrow> crash + (label option \<times> shared \<times> 'w)" where
  "execute_operation X sh w =
     (case planned_operation sh of
        None \<Rightarrow> Inl (Escaped ''Exception'')
      | Some op \<Rightarrow>
          (case exec_async X op w of
             Inl c \<Rightarrow> Inl c
           | Inr (exec_res, w') \<Rightarrow>
               (case execute_post X sh op exec_res w' of
                  (l, sh', w'') \<Rightarrow> Inr (Some l, sh', w''))))"

subsection \<open>AsyncObserveResult (lines 627 to 711)\<close>

text \<open>
  \<open>str.lower\<close> on code points: the ASCII capitals move by 32.  This is what Python does on
  ASCII and on every code point without case, the CJK ideographs among them; other cased
  letters are outside the model.
\<close>

definition lower :: "pystr \<Rightarrow> pystr" where
  "lower s = map (\<lambda>c. if 65 \<le> c \<and> c \<le> 90 then c + 32 else c) s"

text \<open>
  The two tokens of line 700: the ideograph U+662F (yes) and the pair U+5B8C U+6210
  (done).  \<open>affirms\<close> is the condition of that line; \<open>None\<close> and the empty answer are falsy.
\<close>

definition token_yes :: pystr where
  "token_yes = [26159]"

definition token_done :: pystr where
  "token_done = [23436, 25104]"

definition affirms :: "pystr option \<Rightarrow> bool" where
  "affirms completion_result =
     (case completion_result of
        None \<Rightarrow> False
      | Some r \<Rightarrow> r \<noteq> [] \<and> (contains token_yes (lower r) \<or> contains token_done (lower r)))"

text \<open>\<open>exec_async\<close>: the oracle is asked only when the history is not empty.\<close>

definition observe_exec ::
  "'w externals \<Rightarrow> string \<Rightarrow> history_record list \<Rightarrow> browser_env option \<Rightarrow> nat \<Rightarrow> 'w \<Rightarrow>
   crash + ((pystr option \<times> nat) \<times> 'w)" where
  "observe_exec X t h env it w =
     (if h \<noteq> [] then
        (case judge X (completion_prompt t h env) w of
           (ReplyRaised, w') \<Rightarrow> Inl (Escaped ''Exception'')
         | (Reply r, w') \<Rightarrow> Inr ((r, it), w'))
      else Inr ((None, it), w))"

text \<open>\<open>post_async\<close> (lines 686 to 711); \<open>exec_res\<close> may be \<open>None\<close> as far as this code knows.\<close>

definition observe_post :: "shared \<Rightarrow> (pystr option \<times> nat) option \<Rightarrow> label \<times> shared" where
  "observe_post sh exec_res =
     (case exec_res of
        None \<Rightarrow>
          (if iteration sh \<ge> 30 then (Finish, sh\<lparr>final_message := Some MaxIterationsReached\<rparr>)
           else (Continue, sh))
      | Some (completion_result, it) \<Rightarrow>
          (if affirms completion_result
           then (Finish,
                 sh\<lparr>final_message :=
                      Some (TaskCompleted (case completion_result of None \<Rightarrow> [] | Some r \<Rightarrow> r))\<rparr>)
           else if it \<ge> 30
           then (Finish, sh\<lparr>final_message := Some MaxIterationsReached\<rparr>)
           else (Continue, sh)))"

definition observe_result ::
  "'w externals \<Rightarrow> shared \<Rightarrow> 'w \<Rightarrow> crash + (label option \<times> shared \<times> 'w)" where
  "observe_result X sh w =
     (let sh1 = sh\<lparr>iteration := iteration sh + 1\<rparr>;
          h = (case operation_history sh1 of None \<Rightarrow> [] | Some h \<Rightarrow> h)
      in case observe_exec X (task sh1) h (browser_env sh1) (iteration sh1) w of
           Inl c \<Rightarrow> Inl c
         | Inr (exec_res, w') \<Rightarrow>
             (case observe_post sh1 (Some exec_res) of
                (l, sh2) \<Rightarrow> Inr (Some l, sh2, w')))"

subsection \<open>AsyncFinishNode (lines 714 to 766)\<close>

definition finish_node ::
  "'w externals \<Rightarrow> shared \<Rightarrow> 'w \<Rightarrow> crash + (label option \<times> shared \<times> 'w)" where
  "finish_node X sh w =
     (let h = (case operation_history sh of None \<Rightarrow> [] | Some h \<Rightarrow> h)
      in if h \<noteq> [] then
           (case summarize X (summary_prompt_of (task sh) h) w of
              (ReplyRaised, w') \<Rightarrow> Inr (None, sh\<lparr>final_message := Some SummaryUnavailable\<rparr>, w')
            | (Reply None, w') \<Rightarrow> Inr (None, sh\<lparr>final_message := Some TaskDone\<rparr>, w')
            | (Reply (Some t), w') \<Rightarrow> Inr (None, sh\<lparr>final_message := Some (Summary t)\<rparr>, w'))
         else Inr (None, sh\<lparr>final_message := Some TaskDone\<rparr>, w))"

subsection \<open>The flow (lines 797 to 814)\<close>

datatype node = GetBrowserEnv | PlanOperation | ExecuteOperation | ObserveResult | FinishNode

text \<open>The successor table written with \<open>>>\<close> and \<open>-\<close>; a node's \<open>None\<close> counts as \<open>default\<close>.\<close>

fun get_next_node :: "node \<Rightarrow> label option \<Rightarrow> node option" where
  "get_next_node GetBrowserEnv l = (if l = Some Default \<or> l = None then Some PlanOperation else None)"
| "get_next_node PlanOperation l = (if l = Some Default \<or> l = None then Some ExecuteOperation else None)"
| "get_next_node ExecuteOperation l =
     (if l = Some Success then Some ObserveResult
      else if l = Some Error then Some PlanOperation
      else if l = Some Retry then Some ExecuteOperation
      else None)"
| "get_next_node ObserveResult l =
     (if l = Some Continue then Some GetBrowserEnv
      else if l = Some Finish then Some FinishNode
      else None)"
| "get_next_node FinishNode l = None"

fun run_node ::
  "'w externals \<Rightarrow> node \<Rightarrow> shared \<Rightarrow> 'w \<Rightarrow> crash + (label option \<times> shared \<times> 'w)" where
  "run_node X GetBrowserEnv sh w = get_browser_env X sh w"
| "run_node X PlanOperation sh w = plan_operation X sh w"
| "run_node X ExecuteOperation sh w = execute_operation X sh w"
| "run_node X ObserveResult sh w = observe_result X sh w"
| "run_node X FinishNode sh w = finish_node X sh w"

text \<open>
  The flow runs the current node and follows its label until there is no successor;
  nothing bounds the number of nodes it runs, so the result is \<open>None\<close> when it never stops.
\<close>

partial_function (option) orch ::
  "'w externals \<Rightarrow> node \<Rightarrow> shared \<Rightarrow> 'w \<Rightarrow> (crash + shared \<times> 'w) option" where
  "orch X nd sh w =
     (case run_node X nd sh w of
        Inl c \<Rightarrow> Some (Inl c)
      | Inr (l, sh', w') \<Rightarrow>
          (case get_next_node nd l of
             None \<Rightarrow> Some (Inr (sh', w'))
           | Some nxt \<Rightarrow> orch X nxt sh' w'))"

text \<open>
  The same loop cut off after \<open>n\<close> nodes: the node to run next (\<open>None\<close> when the flow has
  ended) with the state reached.
\<close>

fun flow_steps ::
  "'w externals \<Rightarrow> nat \<Rightarrow> node option \<times> shared \<times> 'w \<Rightarrow> crash + (node option \<times> shared \<times> 'w)" where
  "flow_steps X 0 c = Inr c"
| "flow_steps X (Suc n) (None, sh, w) = Inr (None, sh, w)"
| "flow_steps X (Suc n) (Some nd, sh, w) =
     (case run_node X nd sh w of
        Inl c \<Rightarrow> Inl c
      | Inr (l, sh', w') \<Rightarrow> flow_steps X n (get_next_node nd l, sh', w'))"

text \<open>
  \<open>BrowserAgent.post_async\<close> (lines 770 to 794) runs after the flow with \<open>exec_res = None\<close>
  (the finish node returns no label): it returns a label and leaves \<open>shared\<close> as it is.
\<close>

definition agent_post :: "shared \<Rightarrow> label" where
  "agent_post sh = (if iteration sh \<ge> 30 then Finish else Continue)"

definition run_async :: "'w externals \<Rightarrow> shared \<Rightarrow> 'w \<Rightarrow> (crash + label \<times> shared \<times> 'w) option" where
  "run_async X sh w =
     (case orch X GetBrowserEnv sh w of
        None \<Rightarrow> None
      | Some (Inl c) \<Rightarrow> Some (Inl c)
      | Some (Inr (sh', w')) \<Rightarrow> Some (Inr (agent_post sh', sh', w')))"

subsection \<open>Concrete worlds\<close>

text \<open>
  Two worlds for concrete runs; the world is the list of driver calls made so far.  In
  both the oracle never gives a plan and answers the judgement with U+5426 (no).  In
  \<open>calm_world\<close> every driver call returns \<open>None\<close>; in \<open>broken_world\<close> every driver call
  raises.
\<close>

definition sample_env :: browser_env where
  "sample_env = \<lparr>open_tabs = [], current_tab = ''blank'', interactive_elements = []\<rparr>"

definition calm_world :: "(string \<times> pyval list) list externals" where
  "calm_world =
     \<lparr>perceive = (\<lambda>w. (Some sample_env, w)),
      plan_attempt = (\<lambda>p w. (AttemptInvalid, w)),
      driver = (\<lambda>m as w. (Returned PNone, w @ [(m, as)])),
      judge = (\<lambda>p w. (Reply (Some [21542]), w)),
      summarize = (\<lambda>p w. (Reply (Some []), w)),
      sleep = (\<lambda>w. w)\<rparr>"

definition broken_world :: "(string \<times> pyval list) list externals" where
  "broken_world = calm_world\<lparr>driver := (\<lambda>m as w. (Raised ''RuntimeError'', w @ [(m, as)]))\<rparr>"

definition sample_record :: history_record where
  "sample_record = \<lparr>operation = default_plan, result = Value PNone\<rparr>"

text \<open>
  The state of the run in \<open>calm_world\<close> on the task \<open>t\<close> after \<open>n\<close> full rounds, and the
  driver call each round makes.
\<close>

definition calm_state :: "nat \<Rightarrow> shared" where
  "calm_state n =
     \<lparr>task = ''t'', browser_env = Some sample_env, planned_operation = Some default_plan,
      operation_result = Some (Value PNone),
      operation_history = Some (replicate n sample_record), retry_count = 0,
      last_failed_operation = None, iteration = n, final_message = None\<rparr>"

abbreviation scroll_call :: "string \<times> pyval list" where
  "scroll_call \<equiv> (''scroll_down'', [PInt 300])"

text \<open>
  A plan that misses a required parameter, and a world for it: the oracle gives that plan
  while \<open>retry_count\<close> in the prompt is 0 and nothing usable afterwards, and every driver
  call raises \<open>TimeoutError\<close>.
\<close>

definition input_without_text :: plan where
  "input_without_text =
     \<lparr>action = PStr ''input_text'', params = PmDict [''xpath'' \<mapsto> PStr ''//input'']\<rparr>"



text \<open>Applying \<open>post_async\<close> of the execute node to the results of a row of executions.\<close>

fun execute_posts ::
  "'w externals \<Rightarrow> shared \<Rightarrow> (plan \<times> op_result) list \<Rightarrow> 'w \<Rightarrow> label list \<times> shared \<times> 'w" where
  "execute_posts X sh [] w = ([], sh, w)"
| "execute_posts X sh ((op, r) # rest) w =
     (case execute_post X sh op r w of
        (l, sh', w') \<Rightarrow>
          (case execute_posts X sh' rest w' of
             (ls, sh'', w'') \<Rightarrow> (l # ls, sh'', w'')))"

definition go_back_plan :: plan where
  "go_back_plan = \<lparr>action = PStr ''go_back'', params = PmDict Map.empty\<rparr>"

abbreviation timeout_failure :: op_result where
  "timeout_failure \<equiv> Failure ''TimeoutError'' (Some (PStr ''go_back'', PmDict Map.empty))"

text \<open>
  The outside world of the scenario in which nothing goes wrong but nothing is achieved:
  perception never raises, no planning attempt yields a plan, \<open>scroll_down(300)\<close> on the
  driver never raises, and the judgement oracle answers without raising and without
  affirming.
\<close>

definition benign :: "'w externals \<Rightarrow> bool" where
  "benign X \<longleftrightarrow>
     (\<forall>w. fst (perceive X w) \<noteq> None) \<and>
     (\<forall>p w pl. fst (plan_attempt X p w) \<noteq> AttemptPlan pl) \<and>
     (\<forall>w. \<not> is_raise (fst (driver X ''scroll_down'' [PInt 300] w))) \<and>
     (\<forall>p w. \<exists>r. fst (judge X p w) = Reply r \<and> \<not> affirms r)"

section \<open>The guard: counting and recording\<close>

lemma scan_history_all:
  "\<forall>p \<in> set ps. same_call p c \<and> (timestamp c - timestamp p) * 1000 \<le> real_of_int th
   \<Longrightarrow> scan_history th c n ps = n + length ps"
  by (induction ps arbitrary: n) auto

lemma count_all_matching:
  assumes "\<forall>p \<in> set (call_history tr). same_call p c \<and>
             (timestamp c - timestamp p) * 1000 \<le> real_of_int (threshold_ms tr)"
  shows "count_recent_duplicates tr c = length (call_history tr)"
proof (cases "call_history tr = []")
  case True
  then show ?thesis by (simp add: count_recent_duplicates_def)
next
  case False
  have "scan_history (threshold_ms tr) c 0 (rev (call_history tr)) =
          0 + length (rev (call_history tr))"
    by (rule scan_history_all) (use assms in simp)
  with False show ?thesis by (simp add: count_recent_duplicates_def)
qed

lemma deque_append_fits:
  "length xs < n \<Longrightarrow> deque_append n xs x = xs @ [x]"
  by (simp add: deque_append_def)

lemma deque_append_bounded:
  "length (deque_append n xs x) \<le> n"
  by (simp add: deque_append_def)

text \<open>The three paths of the wrapper, by the count it computed.\<close>

lemma wrapper_at_count:
  assumes cnt: "count_recent_duplicates tr (mk_call name as kw t) = k"
    and M: "max_repeats tr = int M" "1 \<le> M"
    and ret: "\<not> is_raise (fst (func as kw w))"
  shows "wrapper tr name func t as kw w =
     (if k \<ge> M then (RaisedRepeatedCall (mk_warning tr name k as kw), tr, w)
      else if k = M - 1 then (ReturnedWarning (mk_warning tr name k as kw),
              record_call tr (mk_call name as kw t), snd (func as kw w))
      else (fst (func as kw w), record_call tr (mk_call name as kw t), snd (func as kw w)))"
  using assms by (auto simp: wrapper_def Let_def split: prod.splits)

text \<open>
  A run of identical calls on a guard that holds \<open>k\<close> of them already, all inside the
  window of every call still to come.
\<close>

lemma call_repeatedly_general:
  assumes "\<forall>p \<in> set (call_history tr). same_call p (mk_call name as kw 0) \<and>
             (\<forall>u \<in> set ts. (u - timestamp p) * 1000 \<le> real_of_int (threshold_ms tr))"
    and "within_window (threshold_ms tr) ts"
    and "length (call_history tr) = k" "k \<le> M" "M \<le> max_history tr"
    and "max_repeats tr = int M" "1 \<le> M"
    and "\<forall>w. \<not> is_raise (fst (func as kw w))"
  shows "call_repeatedly name func as kw ts tr w =
          (map (expected_outcome tr name func as kw w M k) [0..<length ts],
           tr\<lparr>call_history := call_history tr @ map (mk_call name as kw) (take (M - k) ts)\<rparr>,
           (exec_world func as kw ^^ (min (length ts) (M - k))) w)"
  using assms
proof (induction ts arbitrary: tr w k)
  case Nil
  then show ?case by simp
next
  case (Cons t ts)
  let ?c = "mk_call name as kw t"
  have cnt: "count_recent_duplicates tr ?c = k"
    using Cons.prems(1,3) by (subst count_all_matching) (auto simp: same_call_def)
  have ret: "\<not> is_raise (fst (func as kw w))" using Cons.prems(8) by simp
  note W = wrapper_at_count[where func=func and w=w, OF cnt Cons.prems(6,7) ret]
  show ?case
  proof (cases "k = M")
    case True
    have IH: "call_repeatedly name func as kw ts tr w =
          (map (expected_outcome tr name func as kw w M k) [0..<length ts],
           tr\<lparr>call_history := call_history tr @ map (mk_call name as kw) (take (M - k) ts)\<rparr>,
           (exec_world func as kw ^^ (min (length ts) (M - k))) w)"
      by (rule Cons.IH) (use Cons.prems in auto)
    have E: "map (expected_outcome tr name func as kw w M k) [0..<length (t # ts)] =
       RaisedRepeatedCall (mk_warning tr name M as kw) #
       map (expected_outcome tr name func as kw w M k) [0..<length ts]"
      using True Cons.prems(7)
      by (auto simp: expected_outcome_def map_upt_Suc simp del: upt_Suc)
    show ?thesis using True W IH E by simp
  next
    case False
    then have lt: "k < M" using Cons.prems(4) by simp
    let ?tr' = "record_call tr ?c"
    let ?w' = "snd (func as kw w)"
    have app: "call_history ?tr' = call_history tr @ [?c]"
      using lt Cons.prems(3,5) by (simp add: deque_append_fits)
    have IH: "call_repeatedly name func as kw ts ?tr' ?w' =
          (map (expected_outcome ?tr' name func as kw ?w' M (Suc k)) [0..<length ts],
           ?tr'\<lparr>call_history :=
                  call_history ?tr' @ map (mk_call name as kw) (take (M - Suc k) ts)\<rparr>,
           (exec_world func as kw ^^ (min (length ts) (M - Suc k))) ?w')"
      apply (rule Cons.IH)
      using Cons.prems lt app by (auto simp: same_call_def)
    have E: "map (expected_outcome tr name func as kw w M k) [0..<length (t # ts)] =
       expected_outcome tr name func as kw w M k 0 #
       map (expected_outcome ?tr' name func as kw ?w' M (Suc k)) [0..<length ts]"
      by (auto simp: expected_outcome_def map_upt_Suc exec_world_def funpow_swap1
            simp del: upt_Suc)
    have T: "take (M - k) (t # ts) = t # take (M - Suc k) ts"
    proof -
      from lt have "M - k = Suc (M - Suc k)" by simp
      then show ?thesis by simp
    qed
    have F: "(exec_world func as kw ^^ (min (length (t # ts)) (M - k))) w =
             (exec_world func as kw ^^ (min (length ts) (M - Suc k))) ?w'"
    proof -
      from lt have "M - k = Suc (M - Suc k)" by simp
      then have "min (length (t # ts)) (M - k) = Suc (min (length ts) (M - Suc k))" by simp
      then show ?thesis by (simp add: funpow_swap1 exec_world_def)
    qed
    show ?thesis
      using lt W IH app unfolding E T F
      by (auto simp: expected_outcome_def)
  qed
qed

text \<open>
  Once the newest recorded call is older than the threshold, nothing is counted and the
  next call passes as a first call does.
\<close>

lemma count_aged_out:
  assumes "call_history tr = h @ [p]"
    and "(timestamp c - timestamp p) * 1000 > real_of_int (threshold_ms tr)"
  shows "count_recent_duplicates tr c = 0"
  using assms by (simp add: count_recent_duplicates_def)

text \<open>
  Claim C2.  On a fresh guard with \<open>max_repeats = 3\<close>, threshold 30000 ms and depth 15,
  four calls of one operation with the same arguments, read off the clock at
  \<open>t1 \<le> t2 \<le> t3 \<le> t4\<close> within 30000 ms, where the operation returns normally each time
  it runs: the first and the second call run the operation and return its value; the
  third runs it and returns the warning; the fourth raises \<open>RepeatedCallError\<close> and
  leaves the world and the recorded history as they were.
\<close>

theorem guard_four_identical_calls:
  assumes tr: "call_history tr = []" "max_history tr = 15" "threshold_ms tr = 30000"
      "max_repeats tr = 3"
    and order: "t1 \<le> t2" "t2 \<le> t3" "t3 \<le> t4"
    and window: "(t4 - t1) * 1000 \<le> 30000"
    and f1: "func as kw w0 = (Returned v1, w1)"
    and f2: "func as kw w1 = (Returned v2, w2)"
    and f3: "func as kw w2 = (Returned v3, w3)"
  shows "wrapper tr name func t1 as kw w0 =
           (Returned v1, tr\<lparr>call_history := [mk_call name as kw t1]\<rparr>, w1) \<and>
         wrapper (tr\<lparr>call_history := [mk_call name as kw t1]\<rparr>) name func t2 as kw w1 =
           (Returned v2,
            tr\<lparr>call_history := [mk_call name as kw t1, mk_call name as kw t2]\<rparr>, w2) \<and>
         wrapper (tr\<lparr>call_history := [mk_call name as kw t1, mk_call name as kw t2]\<rparr>)
             name func t3 as kw w2 =
           (ReturnedWarning (mk_warning tr name 2 as kw),
            tr\<lparr>call_history :=
                 [mk_call name as kw t1, mk_call name as kw t2, mk_call name as kw t3]\<rparr>,
            w3) \<and>
         wrapper (tr\<lparr>call_history :=
                       [mk_call name as kw t1, mk_call name as kw t2, mk_call name as kw t3]\<rparr>)
             name func t4 as kw w3 =
           (RaisedRepeatedCall (mk_warning tr name 3 as kw),
            tr\<lparr>call_history :=
                 [mk_call name as kw t1, mk_call name as kw t2, mk_call name as kw t3]\<rparr>,
            w3)"
  using assms
  by (simp add: wrapper_def count_recent_duplicates_def deque_append_def same_call_def Let_def)

theorem guard_four_identical_calls_witness:
  "fst (wrapper default_tracker ''click_element'' counting_op 0 [PStr ''//a''] fmempty 0) =
     Returned (PInt 0) \<and>
   fst (wrapper (default_tracker\<lparr>call_history := [click_a 0]\<rparr>)
          ''click_element'' counting_op 1 [PStr ''//a''] fmempty 1) = Returned (PInt 1) \<and>
   wrapper (default_tracker\<lparr>call_history := [click_a 0, click_a 1]\<rparr>)
          ''click_element'' counting_op 2 [PStr ''//a''] fmempty 2 =
     (ReturnedWarning (mk_warning default_tracker ''click_element'' 2 [PStr ''//a''] fmempty),
      default_tracker\<lparr>call_history := [click_a 0, click_a 1, click_a 2]\<rparr>, 3) \<and>
   wrapper (default_tracker\<lparr>call_history := [click_a 0, click_a 1, click_a 2]\<rparr>)
          ''click_element'' counting_op 3 [PStr ''//a''] fmempty 3 =
     (RaisedRepeatedCall (mk_warning default_tracker ''click_element'' 3 [PStr ''//a''] fmempty),
      default_tracker\<lparr>call_history := [click_a 0, click_a 1, click_a 2]\<rparr>, 3)"
  using guard_four_identical_calls
    [where tr = default_tracker and ?t1.0 = 0 and ?t2.0 = 1 and ?t3.0 = 2 and ?t4.0 = 3
      and func = counting_op and as = "[PStr ''//a'']" and kw = fmempty
      and ?w0.0 = 0 and ?w1.0 = 1 and ?w2.0 = 2 and ?w3.0 = 3
      and ?v1.0 = "PInt 0" and ?v2.0 = "PInt 1" and ?v3.0 = "PInt 2"
      and name = "''click_element''"]
  by (simp add: default_tracker_def new_tracker_def counting_op_def)

text \<open>
  Claim C3, as the code has it.  A call that the guard rejects (its count has reached
  \<open>max_repeats\<close>) raises \<open>RepeatedCallError\<close> and leaves the look-back buffer and the world
  unchanged: it is not recorded.  Every other call is appended before the operation runs;
  the buffer is then the last \<open>max_history\<close> entries of the old buffer followed by the
  call, so it never holds more than \<open>max_history\<close> entries and the oldest go first.
\<close>

theorem rejected_call_not_recorded:
  "(max_repeats tr \<le> int (count_recent_duplicates tr (mk_call name as kw t)) \<longrightarrow>
      wrapper tr name func t as kw w =
        (RaisedRepeatedCall
           (mk_warning tr name (count_recent_duplicates tr (mk_call name as kw t)) as kw),
         tr, w)) \<and>
   (int (count_recent_duplicates tr (mk_call name as kw t)) < max_repeats tr \<longrightarrow>
      call_history (fst (snd (wrapper tr name func t as kw w))) =
        drop (Suc (length (call_history tr)) - max_history tr)
             (call_history tr @ [mk_call name as kw t]) \<and>
      length (call_history (fst (snd (wrapper tr name func t as kw w)))) \<le> max_history tr \<and>
      snd (snd (wrapper tr name func t as kw w)) = snd (func as kw w))"
  by (auto simp: wrapper_def Let_def deque_append_def split: prod.splits)

theorem rejected_call_not_recorded_witness:
  "call_history (fst (snd (wrapper (default_tracker\<lparr>call_history := [click_a 0, click_a 1]\<rparr>)
          ''click_element'' counting_op 2 [PStr ''//a''] fmempty 2))) =
     [click_a 0, click_a 1, click_a 2] \<and>
   fst (snd (wrapper (default_tracker\<lparr>call_history := [click_a 0, click_a 1, click_a 2]\<rparr>)
          ''click_element'' counting_op 3 [PStr ''//a''] fmempty 3)) =
     default_tracker\<lparr>call_history := [click_a 0, click_a 1, click_a 2]\<rparr>"
  using rejected_call_not_recorded
      [where tr = "default_tracker\<lparr>call_history := [click_a 0, click_a 1]\<rparr>"
        and name = "''click_element''" and func = counting_op and t = 2
        and as = "[PStr ''//a'']" and kw = fmempty and w = 2]
    rejected_call_not_recorded
      [where tr = "default_tracker\<lparr>call_history := [click_a 0, click_a 1, click_a 2]\<rparr>"
        and name = "''click_element''" and func = counting_op and t = 3
        and as = "[PStr ''//a'']" and kw = fmempty and w = 3]
  by (simp add: default_tracker_def new_tracker_def count_recent_duplicates_def same_call_def)

text \<open>
  Against C3 as stated: after three recorded clicks at seconds 0, 1 and 2, the click at
  second 3 is rejected, the buffer still holds the three earlier calls and not the
  rejected one, and the call after it (second 4) counts 3 duplicates, not 4.
\<close>

theorem rejected_call_recorded_counterexample:
  "wrapper (default_tracker\<lparr>call_history := [click_a 0, click_a 1, click_a 2]\<rparr>)
          ''click_element'' counting_op 3 [PStr ''//a''] fmempty 3 =
     (RaisedRepeatedCall (mk_warning default_tracker ''click_element'' 3 [PStr ''//a''] fmempty),
      default_tracker\<lparr>call_history := [click_a 0, click_a 1, click_a 2]\<rparr>, 3) \<and>
   click_a 3 \<notin> set [click_a 0, click_a 1, click_a 2] \<and>
   count_recent_duplicates (default_tracker\<lparr>call_history := [click_a 0, click_a 1, click_a 2]\<rparr>)
          (click_a 4) = 3"
  by (simp add: wrapper_def default_tracker_def new_tracker_def count_recent_duplicates_def
        same_call_def)




section \<open>The prompts\<close>

lemma safe_data_history_le: "length (safe_data_history h) \<le> 5"
  by (simp add: safe_data_history_def)

lemma safe_data_history_suffix:
  "safe_data_history h = drop (length h - 5) (safe_history h)"
  by (simp add: safe_data_history_def safe_history_def)

lemma planner_prompt_history_capped:
  "length (pp_operation_history (plan_prompt sh)) \<le> 5"
  by (simp add: plan_prompt_def safe_data_history_le)

lemma observer_prompt_length:
  "length (jp_operation_history (completion_prompt t h env)) = length h"
  by (simp add: completion_prompt_def safe_history_def)

text \<open>
  Claim C4, evaluated on the code.  With six records in the history, the planner's prompt
  carries the last five (lines 144 to 147) and the finish node's summary prompt carries
  the last five (line 741), but the observer's judgement prompt of lines 656 to 675
  carries all six: nothing cuts the list there.
\<close>

theorem observer_prompt_history_not_capped:
  "length (jp_operation_history
             (completion_prompt ''t'' (replicate 6 sample_record) None)) = 6 \<and>
   length (pp_operation_history
             (plan_prompt ((initial_shared ''t'')
                \<lparr>operation_history := Some (replicate 6 sample_record)\<rparr>))) = 5 \<and>
   length (sp_operation_history (summary_prompt_of ''t'' (replicate 6 sample_record))) = 5"
  by (simp add: completion_prompt_def plan_prompt_def summary_prompt_of_def safe_history_def
        safe_data_history_def initial_shared_def)

section \<open>The execute node\<close>

lemma execute_post_history:
  assumes "operation_history sh = Some h"
  shows "operation_history (fst (snd (execute_post X sh op r w))) =
           Some (if is_error r then h else h @ [\<lparr>operation = record_params op, result = r\<rparr>])"
  using assms by (simp add: execute_post_def Let_def)

lemma execute_post_label:
  "fst (execute_post X sh op r w) = Success \<longleftrightarrow> \<not> is_error r"
  by (simp add: execute_post_def Let_def split: option.splits)

text \<open>
  Claim C5, as the code has it.  Over any row of EXECUTE outcomes handled by
  \<open>post_async\<close>, starting from a state that has a history \<open>h\<close>, the history afterwards is
  \<open>h\<close> followed by the records \<open>{operation, result}\<close> of exactly the outcomes that are not
  errors, in their order, and nothing else; those outcomes are exactly the ones labelled
  \<open>success\<close> (routed to OBSERVE).  An error outcome, whether it is retried or routed back
  to PLAN, adds nothing.
\<close>

theorem history_grows_on_success_only:
  assumes "operation_history sh = Some h"
  shows "operation_history (fst (snd (execute_posts X sh rs w))) =
           Some (h @ map (\<lambda>p. \<lparr>operation = record_params (fst p), result = snd p\<rparr>)
                        (filter (\<lambda>p. \<not> is_error (snd p)) rs)) \<and>
         map (\<lambda>l. l = Success) (fst (execute_posts X sh rs w)) =
           map (\<lambda>p. \<not> is_error (snd p)) rs"
  using assms
proof (induction rs arbitrary: sh h w)
  case Nil
  then show ?case by simp
next
  case (Cons x rs)
  obtain op r where x: "x = (op, r)" by (cases x)
  obtain l sh' w' where e: "execute_post X sh op r w = (l, sh', w')"
    by (cases "execute_post X sh op r w")
  obtain ls sh'' w'' where es: "execute_posts X sh' rs w' = (ls, sh'', w'')"
    by (cases "execute_posts X sh' rs w'")
  have h': "operation_history sh' =
      Some (if is_error r then h else h @ [\<lparr>operation = record_params op, result = r\<rparr>])"
    using execute_post_history[OF Cons.prems, of X op r w] e by simp
  have l: "l = Success \<longleftrightarrow> \<not> is_error r"
    using execute_post_label[of X sh op r w] e by simp
  from Cons.IH[OF h', of w'] es
  have "operation_history sh'' =
           Some ((if is_error r then h else h @ [\<lparr>operation = record_params op, result = r\<rparr>]) @
                  map (\<lambda>p. \<lparr>operation = record_params (fst p), result = snd p\<rparr>)
                        (filter (\<lambda>p. \<not> is_error (snd p)) rs))"
    and "map (\<lambda>l. l = Success) ls = map (\<lambda>p. \<not> is_error (snd p)) rs"
    by simp_all
  then show ?case using x e es l by simp
qed

theorem history_grows_on_success_only_witness:
  "operation_history (fst (snd (execute_posts calm_world (initial_shared ''t'')
      [(default_plan, Value PNone), (input_without_text, Failure ''parameter_validation'' None),
       (go_back_plan, timeout_failure), (go_back_plan, Value PNone)] []))) =
     Some [\<lparr>operation = default_plan, result = Value PNone\<rparr>,
           \<lparr>operation = go_back_plan, result = Value PNone\<rparr>]"
proof -
  have h0: "operation_history (initial_shared ''t'') = Some []"
    by (simp add: initial_shared_def)
  from history_grows_on_success_only [OF h0, where X = calm_world and w = "[]"
      and rs = "[(default_plan, Value PNone),
                 (input_without_text, Failure ''parameter_validation'' None),
                 (go_back_plan, timeout_failure), (go_back_plan, Value PNone)]"]
  show ?thesis
    by (simp add: record_params_def default_plan_def go_back_plan_def
          del: execute_posts.simps)
qed



lemma validate_dict_missing:
  "k \<in> set req \<Longrightarrow> m k = None \<Longrightarrow> validate_params_by_config (PmDict m) req \<noteq> None"
  by (induction req) auto

lemma lookup_operation_not_seq: "lookup_operation a = Some cfg \<Longrightarrow> \<exists>s. a = PStr s"
  by (cases a) (auto simp: lookup_operation_def)

text \<open>
  Claim C7.  If the action of a plan is in the dispatch table and its \<open>params\<close> dict lacks
  one of the required parameters of that action, \<open>exec_async\<close> returns the failure with
  \<open>error_type\<close> \<open>parameter_validation\<close>; this holds whatever the driver is, and the world
  comes back unchanged: no driver method is called.
\<close>

theorem missing_required_param_rejected:
  assumes "lookup_operation (action op) = Some cfg"
    and "params op = PmDict m"
    and "k \<in> set (required_params cfg)" and "m k = None"
  shows "exec_async X op w = Inr (Failure ''parameter_validation'' None, w)"
proof -
  obtain s where s: "action op = PStr s" using lookup_operation_not_seq[OF assms(1)] by blast
  have n: "normalise_params (action op) (params op) = PmDict m"
    using assms(2) by (simp add: normalise_params_def)
  have "validate_params_by_config (PmDict m) (required_params cfg) \<noteq> None"
    using assms(3,4) by (rule validate_dict_missing)
  then obtain e where "validate_params_by_config (PmDict m) (required_params cfg) = Some e"
    by blast
  then show ?thesis using assms(1) s n by (simp add: exec_async_def Let_def)
qed

theorem missing_required_param_rejected_witness:
  "exec_async calm_world
     \<lparr>action = PStr ''input_text'', params = PmDict [''xpath'' \<mapsto> PStr ''//input'']\<rparr> [] =
     Inr (Failure ''parameter_validation'' None, [])"
  using missing_required_param_rejected [where op = "\<lparr>action = PStr ''input_text'', params = PmDict [''xpath'' \<mapsto> PStr ''//input'']\<rparr>"
      and k = "''text''" and m = "[''xpath'' \<mapsto> PStr ''//input'']" and X = calm_world and w = "[]"
      and cfg = "\<lparr>method_name = ''input_text'', required_params = [''xpath'', ''text''], optional_params = [],
         args_map = [(''xpath'', PNone), (''text'', PNone)]\<rparr>"]
  by (simp add: lookup_operation_def operation_map_def)

section \<open>The observer\<close>

text \<open>
  Claim C9, as the code has it.  For every non-\<open>None\<close> answer of the oracle, the observer
  goes to FINISH exactly when the lowered answer contains U+662F or U+5B8C U+6210, or the
  iteration count has reached 30.  It stores the task-completed message exactly when the
  answer contains one of the two tokens, at any iteration, and so it does for the negated
  phrase U+672A U+5B8C U+6210 (not done); otherwise it stores the maximum-iterations
  message when the count has reached 30, and stores nothing and continues below 30.
\<close>

theorem completion_verdict_substring:
  "(fst (observe_post sh (Some (Some r, it))) = Finish \<longleftrightarrow>
      (r \<noteq> [] \<and> (contains token_yes (lower r) \<or> contains token_done (lower r))) \<or> it \<ge> 30) \<and>
   (contains token_yes (lower r) \<or> contains token_done (lower r) \<longrightarrow>
      observe_post sh (Some (Some r, it)) = (Finish, sh\<lparr>final_message := Some (TaskCompleted r)\<rparr>)) \<and>
   observe_post sh (Some (Some [26410, 23436, 25104], it)) =
      (Finish, sh\<lparr>final_message := Some (TaskCompleted [26410, 23436, 25104])\<rparr>) \<and>
   observe_post sh (Some (Some r, it)) =
      (if contains token_yes (lower r) \<or> contains token_done (lower r)
       then (Finish, sh\<lparr>final_message := Some (TaskCompleted r)\<rparr>)
       else if it \<ge> 30 then (Finish, sh\<lparr>final_message := Some MaxIterationsReached\<rparr>)
       else (Continue, sh))"
  by (auto simp: observe_post_def affirms_def lower_def token_yes_def token_done_def)

theorem completion_verdict_substring_witness:
  "fst (observe_post (initial_shared ''t'') (Some (Some [26410, 23436, 25104], 1))) = Finish"
  using completion_verdict_substring
    [where r = "[26410, 23436, 25104]" and it = 1 and sh = "initial_shared ''t''"]
  by simp

text \<open>
  Against C9 as stated: at iteration 30 the answer U+5426 (no), which contains neither
  token, still leads to FINISH, with the maximum-iterations message.
\<close>

theorem completion_verdict_cap_counterexample:
  "observe_post ((initial_shared ''t'')\<lparr>iteration := 30\<rparr>) (Some (Some [21542], 30)) =
     (Finish, (initial_shared ''t'')\<lparr>iteration := 30, final_message := Some MaxIterationsReached\<rparr>) \<and>
   \<not> contains token_yes (lower [21542]) \<and> \<not> contains token_done (lower [21542])"
  by (simp add: observe_post_def affirms_def lower_def token_yes_def token_done_def initial_shared_def)

section \<open>The flow\<close>

lemma plan_loop_fallback:
  assumes "\<forall>p w pl. fst (plan_attempt X p w) \<noteq> AttemptPlan pl"
  shows "fst (plan_loop X prompt m a w) = default_plan"
proof (induction "m - a" arbitrary: a w)
  case 0
  then show ?case by (subst plan_loop.simps) simp
next
  case (Suc k)
  then have lt: "a < m" and k: "k = m - (a + 1)" by simp_all
  obtain r w' where pa: "plan_attempt X prompt w = (r, w')"
    by (cases "plan_attempt X prompt w")
  have nplan: "\<And>pl. r \<noteq> AttemptPlan pl"
    using assms pa by (metis fst_conv)
  show ?case
  proof (cases r)
    case AttemptRaised
    then show ?thesis
      using lt pa Suc.hyps(1)[OF k, of "sleep X w'"]
      by (subst plan_loop.simps) simp
  next
    case AttemptInvalid
    then show ?thesis
      using lt pa Suc.hyps(1)[OF k, of w']
      by (subst plan_loop.simps) simp
  next
    case (AttemptPlan pl)
    then show ?thesis using nplan by simp
  qed
qed

lemma node_get_env:
  assumes "benign X"
  shows "\<exists>env w'. get_browser_env X sh w = Inr (Some Default, sh\<lparr>browser_env := Some env\<rparr>, w')"
proof -
  obtain e w' where p: "perceive X w = (e, w')" by (cases "perceive X w")
  with assms have "e \<noteq> None" by (metis benign_def fst_conv)
  then show ?thesis using p by (auto simp: get_browser_env_def)
qed

lemma node_plan:
  assumes "benign X" "task sh \<noteq> []"
  shows "\<exists>w'. plan_operation X sh w =
           Inr (Some Default, sh\<lparr>planned_operation := Some default_plan\<rparr>, w')"
proof -
  have "fst (plan_loop X (plan_prompt sh) 3 0 w) = default_plan"
    using assms(1) by (intro plan_loop_fallback) (simp add: benign_def)
  then show ?thesis using assms(2)
    by (cases "plan_loop X (plan_prompt sh) 3 0 w") (simp add: plan_operation_def)
qed

lemma exec_async_default_plan:
  "exec_async X default_plan w =
     Inr (outcome_result (PStr ''scroll_down'') (PmDict [''pixel'' \<mapsto> PInt 300])
            (fst (driver X ''scroll_down'' [PInt 300] w)),
          snd (driver X ''scroll_down'' [PInt 300] w))"
  by (simp add: exec_async_def default_plan_def normalise_params_def lookup_operation_def
        operation_map_def extract_args_def split: prod.splits)

lemma record_params_default_plan: "record_params default_plan = default_plan"
  by (simp add: record_params_def default_plan_def)

lemma outcome_result_no_raise: "\<not> is_raise out \<Longrightarrow> \<not> is_error (outcome_result a ps out)"
  by (cases out) simp_all

lemma node_execute:
  assumes "benign X" "planned_operation sh = Some default_plan" "operation_history sh = Some h"
  shows "\<exists>r w'. execute_operation X sh w =
           Inr (Some Success,
                sh\<lparr>operation_result := Some r, retry_count := 0, last_failed_operation := None,
                   planned_operation := Some default_plan,
                   operation_history := Some (h @ [\<lparr>operation = default_plan, result = r\<rparr>])\<rparr>,
                w')"
proof -
  let ?out = "fst (driver X ''scroll_down'' [PInt 300] w)"
  let ?r = "outcome_result (PStr ''scroll_down'') (PmDict [''pixel'' \<mapsto> PInt 300]) ?out"
  have "\<not> is_raise ?out" using assms(1) by (simp add: benign_def)
  then have ne: "\<not> is_error ?r" by (rule outcome_result_no_raise)
  have "execute_operation X sh w =
           Inr (Some Success,
                sh\<lparr>operation_result := Some ?r, retry_count := 0, last_failed_operation := None,
                   planned_operation := Some default_plan,
                   operation_history := Some (h @ [\<lparr>operation = default_plan, result = ?r\<rparr>])\<rparr>,
                snd (driver X ''scroll_down'' [PInt 300] w))"
    using assms(2,3) ne
    by (simp add: execute_operation_def exec_async_default_plan execute_post_def Let_def
          record_params_default_plan)
  then show ?thesis by blast
qed

lemma node_observe:
  assumes "benign X" "operation_history sh = Some h" "h \<noteq> []"
  shows "\<exists>w'. observe_result X sh w =
           Inr (if iteration sh + 1 \<ge> 30
                then (Some Finish, sh\<lparr>iteration := iteration sh + 1,
                                          final_message := Some MaxIterationsReached\<rparr>, w')
                else (Some Continue, sh\<lparr>iteration := iteration sh + 1\<rparr>, w'))"
proof -
  let ?p = "completion_prompt (task sh) h (browser_env sh)"
  obtain r where r: "fst (judge X ?p w) = Reply r" "\<not> affirms r"
    using assms(1) unfolding benign_def by blast
  then obtain w' where j: "judge X ?p w = (Reply r, w')" by (cases "judge X ?p w") auto
  show ?thesis using assms(2,3) j r(2)
    by (auto simp: observe_result_def observe_exec_def observe_post_def Let_def)
qed

lemma flow_steps_done: "flow_steps X n (None, sh, w) = Inr (None, sh, w)"
  by (cases n) simp_all

lemma flow_steps_add:
  "flow_steps X (m + n) c =
     (case flow_steps X m c of Inl e \<Rightarrow> Inl e | Inr c' \<Rightarrow> flow_steps X n c')"
proof (induction m arbitrary: c)
  case 0
  then show ?case by simp
next
  case (Suc m)
  obtain nd sh w where c: "c = (nd, sh, w)" by (cases c)
  show ?case
  proof (cases nd)
    case None
    then show ?thesis using c by (simp add: flow_steps_done)
  next
    case (Some a)
    then show ?thesis using c Suc by (simp split: sum.splits prod.splits)
  qed
qed

lemma cycle:
  assumes "benign X" "task sh \<noteq> []" "operation_history sh = Some h"
  shows "\<exists>sh' w' r.
      flow_steps X 4 (Some GetBrowserEnv, sh, w) =
        Inr (Some (if iteration sh + 1 \<ge> 30 then FinishNode else GetBrowserEnv), sh', w') \<and>
      task sh' = task sh \<and> iteration sh' = iteration sh + 1 \<and>
      operation_history sh' = Some (h @ [r]) \<and>
      final_message sh' =
        (if iteration sh + 1 \<ge> 30 then Some MaxIterationsReached else final_message sh)"
proof -
  obtain env w1 where s1: "get_browser_env X sh w =
      Inr (Some Default, sh\<lparr>browser_env := Some env\<rparr>, w1)"
    using node_get_env[OF assms(1)] by blast
  let ?sh1 = "sh\<lparr>browser_env := Some env\<rparr>"
  obtain w2 where s2: "plan_operation X ?sh1 w1 =
      Inr (Some Default, ?sh1\<lparr>planned_operation := Some default_plan\<rparr>, w2)"
    using node_plan[OF assms(1), of ?sh1 w1] assms(2) by auto
  let ?sh2 = "?sh1\<lparr>planned_operation := Some default_plan\<rparr>"
  obtain r w3 where s3: "execute_operation X ?sh2 w2 =
      Inr (Some Success,
           ?sh2\<lparr>operation_result := Some r, retry_count := 0, last_failed_operation := None,
                planned_operation := Some default_plan,
                operation_history := Some (h @ [\<lparr>operation = default_plan, result = r\<rparr>])\<rparr>,
           w3)"
    using node_execute[OF assms(1), of ?sh2 h w2] assms(3) by auto
  let ?sh3 = "?sh2\<lparr>operation_result := Some r, retry_count := 0, last_failed_operation := None,
                planned_operation := Some default_plan,
                operation_history := Some (h @ [\<lparr>operation = default_plan, result = r\<rparr>])\<rparr>"
  obtain w4 where s4: "observe_result X ?sh3 w3 =
      Inr (if iteration ?sh3 + 1 \<ge> 30
           then (Some Finish, ?sh3\<lparr>iteration := iteration ?sh3 + 1,
                                     final_message := Some MaxIterationsReached\<rparr>, w4)
           else (Some Continue, ?sh3\<lparr>iteration := iteration ?sh3 + 1\<rparr>, w4))"
    using node_observe[OF assms(1), of ?sh3 "h @ [\<lparr>operation = default_plan, result = r\<rparr>]" w3]
    by auto
  have four: "(4::nat) = Suc (Suc (Suc (Suc 0)))" by simp
  show ?thesis
    unfolding four using s1 s2 s3 s4 by (cases "iteration sh + 1 \<ge> 30") auto
qed

lemma cycles:
  assumes "benign X" "t \<noteq> []" "n \<le> 29"
  shows "\<exists>sh w' h.
      flow_steps X (4 * n) (Some GetBrowserEnv, initial_shared t, w) =
        Inr (Some GetBrowserEnv, sh, w') \<and>
      task sh = t \<and> iteration sh = n \<and> operation_history sh = Some h \<and> length h = n \<and>
      final_message sh = None"
  using assms(3)
proof (induction n)
  case 0
  then show ?case by (simp add: initial_shared_def)
next
  case (Suc n)
  then obtain sh w' h where st:
      "flow_steps X (4 * n) (Some GetBrowserEnv, initial_shared t, w) =
         Inr (Some GetBrowserEnv, sh, w')"
      "task sh = t" "iteration sh = n" "operation_history sh = Some h" "length h = n"
      "final_message sh = None"
    by auto
  from cycle[OF assms(1), of sh h w'] st(2,4) assms(2)
  obtain sh' w'' r where c:
      "flow_steps X 4 (Some GetBrowserEnv, sh, w') =
        Inr (Some (if iteration sh + 1 \<ge> 30 then FinishNode else GetBrowserEnv), sh', w'')"
      "task sh' = task sh" "iteration sh' = iteration sh + 1"
      "operation_history sh' = Some (h @ [r])"
      "final_message sh' =
        (if iteration sh + 1 \<ge> 30 then Some MaxIterationsReached else final_message sh)"
    by auto
  have "flow_steps X (4 * n + 4) (Some GetBrowserEnv, initial_shared t, w) =
      flow_steps X 4 (Some GetBrowserEnv, sh, w')"
    unfolding flow_steps_add st(1) by simp
  moreover have "4 * Suc n = 4 * n + 4" by simp
  ultimately have "flow_steps X (4 * Suc n) (Some GetBrowserEnv, initial_shared t, w) =
      flow_steps X 4 (Some GetBrowserEnv, sh, w')"
    by (simp only:)
  then show ?case using c st Suc.prems by auto
qed

lemma reach_finish:
  assumes "benign X" "t \<noteq> []"
  shows "\<exists>sh w' h.
      flow_steps X 120 (Some GetBrowserEnv, initial_shared t, w) = Inr (Some FinishNode, sh, w') \<and>
      iteration sh = 30 \<and> final_message sh = Some MaxIterationsReached \<and>
      operation_history sh = Some h \<and> length h = 30"
proof -
  from cycles[OF assms, of 29 w] obtain sh w' h where st:
      "flow_steps X (4 * 29) (Some GetBrowserEnv, initial_shared t, w) =
         Inr (Some GetBrowserEnv, sh, w')"
      "task sh = t" "iteration sh = 29" "operation_history sh = Some h" "length h = 29"
    by auto
  from cycle[OF assms(1), of sh h w'] st(2,4) assms(2)
  obtain sh' w'' r where c:
      "flow_steps X 4 (Some GetBrowserEnv, sh, w') =
        Inr (Some (if iteration sh + 1 \<ge> 30 then FinishNode else GetBrowserEnv), sh', w'')"
      "task sh' = task sh" "iteration sh' = iteration sh + 1"
      "operation_history sh' = Some (h @ [r])"
      "final_message sh' =
        (if iteration sh + 1 \<ge> 30 then Some MaxIterationsReached else final_message sh)"
    by auto
  have "flow_steps X (4 * 29 + 4) (Some GetBrowserEnv, initial_shared t, w) =
      flow_steps X 4 (Some GetBrowserEnv, sh, w')"
    unfolding flow_steps_add st(1) by simp
  moreover have "(120::nat) = 4 * 29 + 4" by simp
  ultimately have "flow_steps X 120 (Some GetBrowserEnv, initial_shared t, w) =
      flow_steps X 4 (Some GetBrowserEnv, sh, w')"
    by (simp only:)
  then show ?thesis using c st by auto
qed

lemma orch_flow_steps:
  "flow_steps X n (Some nd, sh, w) = Inr (Some nd', sh', w') \<Longrightarrow>
   orch X nd sh w = orch X nd' sh' w'"
proof (induction n arbitrary: nd sh w)
  case 0
  then show ?case by simp
next
  case (Suc n)
  show ?case
  proof (cases "run_node X nd sh w")
    case (Inl c)
    then show ?thesis using Suc.prems by simp
  next
    case (Inr res)
    obtain l sh1 w1 where res: "res = (l, sh1, w1)" by (cases res)
    show ?thesis
    proof (cases "get_next_node nd l")
      case None
      then show ?thesis using Suc.prems Inr res by (simp add: flow_steps_done)
    next
      case (Some nxt)
      then have "flow_steps X n (Some nxt, sh1, w1) = Inr (Some nd', sh', w')"
        using Suc.prems Inr res by simp
      then have "orch X nxt sh1 w1 = orch X nd' sh' w'" by (rule Suc.IH)
      then show ?thesis using Inr res Some by (subst orch.simps) simp
    qed
  qed
qed

lemma orch_finish_node:
  "\<exists>sh' w'. orch X FinishNode sh w = Some (Inr (sh', w')) \<and> iteration sh' = iteration sh \<and>
      final_message sh' \<noteq> None"
  by (subst orch.simps)
     (auto simp: finish_node_def Let_def split: prod.splits reply.splits option.splits)

text \<open>The cap: from the initial state the counter never passes 30.\<close>

lemma run_node_iteration:
  assumes "run_node X nd sh w = Inr (l, sh', w')" "nd \<noteq> FinishNode \<longrightarrow> iteration sh < 30"
    "iteration sh \<le> 30"
  shows "iteration sh' \<le> 30 \<and>
         (\<forall>nxt. get_next_node nd l = Some nxt \<longrightarrow> nxt \<noteq> FinishNode \<longrightarrow> iteration sh' < 30)"
proof (cases nd)
  case GetBrowserEnv
  then show ?thesis using assms
    by (auto simp: get_browser_env_def split: prod.splits option.splits)
next
  case PlanOperation
  then show ?thesis using assms
    by (auto simp: plan_operation_def split: prod.splits if_splits)
next
  case ExecuteOperation
  then show ?thesis using assms
    by (auto simp: execute_operation_def execute_post_def Let_def
          split: prod.splits option.splits sum.splits if_splits)
next
  case ObserveResult
  then show ?thesis using assms
    by (auto simp: observe_result_def observe_exec_def observe_post_def Let_def
          split: prod.splits option.splits sum.splits if_splits reply.splits)
next
  case FinishNode
  then show ?thesis using assms
    by (auto simp: finish_node_def Let_def split: prod.splits reply.splits option.splits if_splits)
qed

lemma iteration_cap_general:
  assumes "flow_steps X n (nd, sh, w) = Inr (nd', sh', w')"
    and "nd \<noteq> Some FinishNode \<longrightarrow> nd \<noteq> None \<longrightarrow> iteration sh < 30" and "iteration sh \<le> 30"
  shows "iteration sh' \<le> 30 \<and> (nd' \<noteq> Some FinishNode \<longrightarrow> nd' \<noteq> None \<longrightarrow> iteration sh' < 30)"
  using assms
proof (induction n arbitrary: nd sh w)
  case 0
  then show ?case by simp
next
  case (Suc n)
  show ?case
  proof (cases nd)
    case None
    then show ?thesis using Suc.prems by simp
  next
    case (Some cur)
    obtain l sh1 w1 where rn: "run_node X cur sh w = Inr (l, sh1, w1)"
      using Suc.prems(1) Some by (cases "run_node X cur sh w") auto
    have inv: "iteration sh1 \<le> 30 \<and>
         (\<forall>nxt. get_next_node cur l = Some nxt \<longrightarrow> nxt \<noteq> FinishNode \<longrightarrow> iteration sh1 < 30)"
      using run_node_iteration[OF rn] Suc.prems(2,3) Some by simp
    have st: "flow_steps X n (get_next_node cur l, sh1, w1) = Inr (nd', sh', w')"
      using Suc.prems(1) Some rn by simp
    show ?thesis
      by (rule Suc.IH[OF st]) (use inv in auto)
  qed
qed

text \<open>The broken world: re-planning goes on for ever.\<close>

lemma broken_world_diverges:
  assumes run: "orch X nd sh w = Some y"
  shows "\<not> (X = broken_world \<and> task sh \<noteq> [] \<and>
            (nd = GetBrowserEnv \<or> nd = PlanOperation \<or>
             (nd = ExecuteOperation \<and> planned_operation sh = Some default_plan)))"
proof (rule orch.raw_induct
    [where P = "\<lambda>X nd sh w y. \<not> (X = broken_world \<and> task sh \<noteq> [] \<and>
            (nd = GetBrowserEnv \<or> nd = PlanOperation \<or>
             (nd = ExecuteOperation \<and> planned_operation sh = Some default_plan)))", OF _ run],
    goal_cases)
  case (1 orch' X nd sh w y)
  note IH = 1(1) and body = 1(2)
  show ?case
  proof
    assume inv: "X = broken_world \<and> task sh \<noteq> [] \<and>
            (nd = GetBrowserEnv \<or> nd = PlanOperation \<or>
             (nd = ExecuteOperation \<and> planned_operation sh = Some default_plan))"
    then have X: "X = broken_world" and t: "task sh \<noteq> []" by simp_all
    have fb: "\<And>p w. fst (plan_loop broken_world p 3 0 w) = default_plan"
      by (rule plan_loop_fallback) (simp add: broken_world_def calm_world_def)
    from inv consider "nd = GetBrowserEnv" | "nd = PlanOperation"
      | "nd = ExecuteOperation" "planned_operation sh = Some default_plan" by blast
    then show False
    proof cases
      case 1
      then have "orch' X PlanOperation (sh\<lparr>browser_env := Some sample_env\<rparr>) w = Some y"
        using body X
        by (simp add: get_browser_env_def broken_world_def calm_world_def)
      then show False using IH X t by fastforce
    next
      case 2
      obtain p w' where pl: "plan_loop broken_world (plan_prompt sh) 3 0 w = (p, w')"
        by (cases "plan_loop broken_world (plan_prompt sh) 3 0 w")
      then have p: "p = default_plan" using fb[of "plan_prompt sh" w] by simp
      have "orch' X ExecuteOperation (sh\<lparr>planned_operation := Some default_plan\<rparr>) w' = Some y"
        using body X 2 t pl p by (simp add: plan_operation_def)
      then show False using IH X t by fastforce
    next
      case 3
      have "orch' X PlanOperation
              (sh\<lparr>operation_result :=
                    Some (Failure ''RuntimeError''
                      (Some (PStr ''scroll_down'', PmDict [''pixel'' \<mapsto> PInt 300]))),
                  last_failed_operation := Some default_plan,
                  retry_count := retry_count sh + 1\<rparr>)
              (w @ [(''scroll_down'', [PInt 300])]) = Some y"
        using body X 3
        by (simp add: execute_operation_def exec_async_default_plan execute_post_def Let_def
              broken_world_def calm_world_def transient_errors_def)
      then show False using IH X t by fastforce
    qed
  qed
qed

text \<open>
  In a benign world the run reaches the finish node after 120 node runs, thirty rounds of
  perceive, plan, execute and observe, with iteration 30 and the maximum-iterations message
  just stored by the observer; the finish node then ends the run, and no state on the way
  has an iteration count above 30.
\<close>

lemma benign_run_reaches_cap:
  assumes "benign X" and "t \<noteq> []"
  shows "\<exists>sh w' sh'' w''.
      flow_steps X 120 (Some GetBrowserEnv, initial_shared t, w) = Inr (Some FinishNode, sh, w') \<and>
      iteration sh = 30 \<and> final_message sh = Some MaxIterationsReached \<and>
      orch X GetBrowserEnv (initial_shared t) w = Some (Inr (sh'', w'')) \<and>
      iteration sh'' = 30 \<and>
      run_async X (initial_shared t) w = Some (Inr (Finish, sh'', w'')) \<and>
      (\<forall>n nd s v. flow_steps X n (Some GetBrowserEnv, initial_shared t, w) = Inr (nd, s, v)
          \<longrightarrow> iteration s \<le> 30)"
proof -
  from reach_finish[OF assms, of w] obtain sh w' where r:
    "flow_steps X 120 (Some GetBrowserEnv, initial_shared t, w) = Inr (Some FinishNode, sh, w')"
    "iteration sh = 30" "final_message sh = Some MaxIterationsReached"
    by blast
  have o: "orch X GetBrowserEnv (initial_shared t) w = orch X FinishNode sh w'"
    using r(1) by (rule orch_flow_steps)
  from orch_finish_node[of X sh w'] obtain sh'' w'' where f:
    "orch X FinishNode sh w' = Some (Inr (sh'', w''))" "iteration sh'' = iteration sh"
    by blast
  have ra: "run_async X (initial_shared t) w = Some (Inr (Finish, sh'', w''))"
    using o f r(2) by (simp add: run_async_def agent_post_def)
  have cap: "\<forall>n nd s v. flow_steps X n (Some GetBrowserEnv, initial_shared t, w) = Inr (nd, s, v)
          \<longrightarrow> iteration s \<le> 30"
  proof (intro allI impI)
    fix n nd s v
    assume "flow_steps X n (Some GetBrowserEnv, initial_shared t, w) = Inr (nd, s, v)"
    from iteration_cap_general[OF this] show "iteration s \<le> 30"
      by (simp add: initial_shared_def)
  qed
  show ?thesis using r o f ra cap by auto
qed

text \<open>
  With a driver that raises on every call the default scroll fails in every round,
  EXECUTE routes back to PLAN, OBSERVE is never reached, and the flow never stops.
\<close>

lemma broken_world_never_stops:
  "orch broken_world GetBrowserEnv (initial_shared ''t'') [] = None"
proof (cases "orch broken_world GetBrowserEnv (initial_shared ''t'') []")
  case None
  then show ?thesis .
next
  case (Some y)
  from broken_world_diverges[OF Some] show ?thesis by (simp add: initial_shared_def)
qed

section \<open>Runs in which execution fails\<close>

lemma broken_world_fields:
  "perceive broken_world = (\<lambda>w. (Some sample_env, w))"
  "plan_attempt broken_world = (\<lambda>p w. (AttemptInvalid, w))"
  "driver broken_world = (\<lambda>m as w. (Raised ''RuntimeError'', w @ [(m, as)]))"
  "sleep broken_world = (\<lambda>w. w)"
  by (simp_all add: broken_world_def calm_world_def)


lemma plan_loop_broken: "plan_loop broken_world p 3 0 w = (default_plan, w)"
  by (simp add: plan_loop.simps broken_world_fields)


lemma broken_get: "get_browser_env broken_world sh w =
    Inr (Some Default, sh\<lparr>browser_env := Some sample_env\<rparr>, w)"
  by (simp add: get_browser_env_def broken_world_fields)

lemma broken_plan: "task sh \<noteq> [] \<Longrightarrow> plan_operation broken_world sh w =
    Inr (Some Default, sh\<lparr>planned_operation := Some default_plan\<rparr>, w)"
  by (simp add: plan_operation_def plan_loop_broken)

lemma broken_execute:
  "planned_operation sh = Some default_plan \<Longrightarrow>
   execute_operation broken_world sh w =
     Inr (Some Error,
          sh\<lparr>operation_result :=
               Some (Failure ''RuntimeError''
                 (Some (PStr ''scroll_down'', PmDict [''pixel'' \<mapsto> PInt 300]))),
             last_failed_operation := Some default_plan,
             retry_count := retry_count sh + 1\<rparr>,
          w @ [(''scroll_down'', [PInt 300])])"
  by (simp add: execute_operation_def exec_async_default_plan execute_post_def Let_def
        transient_errors_def broken_world_fields)

text \<open>
  Against C5 as stated: in the world whose driver raises on every call, the first three
  nodes of the run are perception, planning (the default scroll) and execution; the
  scroll fails with \<open>RuntimeError\<close>, a terminal outcome that is routed to PLAN, and the
  history is still empty.
\<close>

theorem error_outcome_not_recorded_counterexample:
  "flow_steps broken_world 3 (Some GetBrowserEnv, initial_shared ''t'', []) =
     Inr (Some PlanOperation,
          (initial_shared ''t'')
            \<lparr>browser_env := Some sample_env, planned_operation := Some default_plan,
             operation_result :=
               Some (Failure ''RuntimeError''
                 (Some (PStr ''scroll_down'', PmDict [''pixel'' \<mapsto> PInt 300]))),
             last_failed_operation := Some default_plan, retry_count := 1\<rparr>,
          [(''scroll_down'', [PInt 300])]) \<and>
   operation_history
     ((initial_shared ''t'')
            \<lparr>browser_env := Some sample_env, planned_operation := Some default_plan,
             operation_result :=
               Some (Failure ''RuntimeError''
                 (Some (PStr ''scroll_down'', PmDict [''pixel'' \<mapsto> PInt 300]))),
             last_failed_operation := Some default_plan, retry_count := 1\<rparr>) = Some []"
  by (simp add: numeral_3_eq_3 broken_get broken_plan broken_execute initial_shared_def)








section \<open>The capped run, evaluated\<close>

lemma finish_node_overwrites:
  "finish_node X sh w = Inr (l, sh', w') \<Longrightarrow>
   final_message sh' \<noteq> Some MaxIterationsReached \<and> final_message sh' \<noteq> None"
  by (auto simp: finish_node_def Let_def split: prod.splits reply.splits option.splits if_splits)

lemma calm_world_fields:
  "perceive calm_world = (\<lambda>w. (Some sample_env, w))"
  "plan_attempt calm_world = (\<lambda>p w. (AttemptInvalid, w))"
  "driver calm_world = (\<lambda>m as w. (Returned PNone, w @ [(m, as)]))"
  "judge calm_world = (\<lambda>p w. (Reply (Some [21542]), w))"
  "summarize calm_world = (\<lambda>p w. (Reply (Some []), w))"
  "sleep calm_world = (\<lambda>w. w)"
  by (simp_all add: calm_world_def)

lemma plan_loop_calm: "plan_loop calm_world p 3 0 w = (default_plan, w)"
  by (simp add: plan_loop.simps calm_world_fields)

lemma calm_get: "get_browser_env calm_world sh w =
    Inr (Some Default, sh\<lparr>browser_env := Some sample_env\<rparr>, w)"
  by (simp add: get_browser_env_def calm_world_fields)

lemma calm_plan: "task sh \<noteq> [] \<Longrightarrow> plan_operation calm_world sh w =
    Inr (Some Default, sh\<lparr>planned_operation := Some default_plan\<rparr>, w)"
  by (simp add: plan_operation_def plan_loop_calm)

lemma calm_execute:
  "planned_operation sh = Some default_plan \<Longrightarrow> operation_history sh = Some h \<Longrightarrow>
   execute_operation calm_world sh w =
     Inr (Some Success,
          sh\<lparr>operation_result := Some (Value PNone), retry_count := 0,
             last_failed_operation := None, planned_operation := Some default_plan,
             operation_history := Some (h @ [sample_record])\<rparr>,
          w @ [scroll_call])"
  by (simp add: execute_operation_def exec_async_default_plan execute_post_def Let_def
        record_params_default_plan calm_world_fields sample_record_def)

lemma no_does_not_affirm: "\<not> affirms (Some [21542])"
  by (simp add: affirms_def lower_def token_yes_def token_done_def)

lemma calm_observe:
  "operation_history sh = Some h \<Longrightarrow> h \<noteq> [] \<Longrightarrow>
   observe_result calm_world sh w =
     Inr (if iteration sh + 1 \<ge> 30
          then (Some Finish, sh\<lparr>iteration := iteration sh + 1,
                                    final_message := Some MaxIterationsReached\<rparr>, w)
          else (Some Continue, sh\<lparr>iteration := iteration sh + 1\<rparr>, w))"
  by (simp add: observe_result_def observe_exec_def observe_post_def Let_def
        calm_world_fields no_does_not_affirm)

lemma calm_finish:
  "operation_history sh = Some h \<Longrightarrow> h \<noteq> [] \<Longrightarrow>
   finish_node calm_world sh w = Inr (None, sh\<lparr>final_message := Some (Summary [])\<rparr>, w)"
  by (simp add: finish_node_def Let_def calm_world_fields)

lemma four: "(4::nat) = Suc (Suc (Suc (Suc 0)))"
  by simp

lemma calm_first_cycle:
  "flow_steps calm_world 4 (Some GetBrowserEnv, initial_shared ''t'', []) =
     Inr (Some GetBrowserEnv, calm_state 1, [scroll_call])"
  unfolding four
  by (simp add: calm_get calm_plan calm_execute calm_observe initial_shared_def calm_state_def)

lemma calm_cycle:
  assumes "n < 29"
  shows "flow_steps calm_world 4 (Some GetBrowserEnv, calm_state n, replicate n scroll_call) =
     Inr (Some GetBrowserEnv, calm_state (Suc n), replicate (Suc n) scroll_call)"
  unfolding four using assms
  by (simp add: calm_get calm_plan calm_execute calm_observe calm_state_def
        replicate_append_same)

lemma calm_cycles:
  assumes "n < 29"
  shows "flow_steps calm_world (4 * Suc n) (Some GetBrowserEnv, initial_shared ''t'', []) =
     Inr (Some GetBrowserEnv, calm_state (Suc n), replicate (Suc n) scroll_call)"
  using assms
proof (induction n)
  case 0
  then show ?case using calm_first_cycle by simp
next
  case (Suc n)
  then have IH: "flow_steps calm_world (4 * Suc n) (Some GetBrowserEnv, initial_shared ''t'', []) =
     Inr (Some GetBrowserEnv, calm_state (Suc n), replicate (Suc n) scroll_call)"
    by simp
  have "flow_steps calm_world (4 * Suc n + 4) (Some GetBrowserEnv, initial_shared ''t'', []) =
      flow_steps calm_world 4 (Some GetBrowserEnv, calm_state (Suc n), replicate (Suc n) scroll_call)"
    unfolding flow_steps_add IH by simp
  moreover have "4 * Suc (Suc n) = 4 * Suc n + 4" by simp
  ultimately have "flow_steps calm_world (4 * Suc (Suc n)) (Some GetBrowserEnv, initial_shared ''t'', []) =
      flow_steps calm_world 4 (Some GetBrowserEnv, calm_state (Suc n), replicate (Suc n) scroll_call)"
    by (simp only:)
  then show ?case using calm_cycle[of "Suc n"] Suc.prems by simp
qed

lemma calm_last_cycle:
  "flow_steps calm_world 4 (Some GetBrowserEnv, calm_state 29, replicate 29 scroll_call) =
     Inr (Some FinishNode, (calm_state 30)\<lparr>final_message := Some MaxIterationsReached\<rparr>,
          replicate 30 scroll_call)"
proof -
  have r: "replicate 29 x @ [x] = replicate 30 x" for x :: 'a
    using replicate_append_same[of 29 x] by (simp add: numeral_eq_Suc)
  show ?thesis
    unfolding four
    by (simp add: calm_get calm_plan calm_execute calm_observe calm_state_def r)
qed

lemma calm_120:
  "flow_steps calm_world 120 (Some GetBrowserEnv, initial_shared ''t'', []) =
     Inr (Some FinishNode, (calm_state 30)\<lparr>final_message := Some MaxIterationsReached\<rparr>,
          replicate 30 scroll_call)"
proof -
  have c: "flow_steps calm_world 116 (Some GetBrowserEnv, initial_shared ''t'', []) =
     Inr (Some GetBrowserEnv, calm_state 29, replicate 29 scroll_call)"
    using calm_cycles[of 28] by simp
  have "flow_steps calm_world (116 + 4) (Some GetBrowserEnv, initial_shared ''t'', []) =
      flow_steps calm_world 4 (Some GetBrowserEnv, calm_state 29, replicate 29 scroll_call)"
    unfolding flow_steps_add c by simp
  moreover have "(120::nat) = 116 + 4" by simp
  ultimately show ?thesis using calm_last_cycle by (simp only:)
qed

lemma calm_121:
  "flow_steps calm_world 121 (Some GetBrowserEnv, initial_shared ''t'', []) =
     Inr (None, (calm_state 30)\<lparr>final_message := Some (Summary [])\<rparr>,
          replicate 30 scroll_call)"
proof -
  have "flow_steps calm_world (120 + 1) (Some GetBrowserEnv, initial_shared ''t'', []) =
      flow_steps calm_world 1 (Some FinishNode,
        (calm_state 30)\<lparr>final_message := Some MaxIterationsReached\<rparr>, replicate 30 scroll_call)"
    unfolding flow_steps_add calm_120 by simp
  moreover have "(121::nat) = 120 + 1" by simp
  ultimately have "flow_steps calm_world 121 (Some GetBrowserEnv, initial_shared ''t'', []) =
      flow_steps calm_world 1 (Some FinishNode,
        (calm_state 30)\<lparr>final_message := Some MaxIterationsReached\<rparr>, replicate 30 scroll_call)"
    by (simp only:)
  then show ?thesis
    by (simp add: calm_finish[where h = "replicate 30 sample_record"] calm_state_def)
qed

lemma orch_flow_steps_done:
  "flow_steps X n (Some nd, sh, w) = Inr (None, sh', w') \<Longrightarrow>
   orch X nd sh w = Some (Inr (sh', w'))"
proof (induction n arbitrary: nd sh w)
  case 0
  then show ?case by simp
next
  case (Suc n)
  show ?case
  proof (cases "run_node X nd sh w")
    case (Inl c)
    then show ?thesis using Suc.prems by simp
  next
    case (Inr res)
    obtain l sh1 w1 where res: "res = (l, sh1, w1)" by (cases res)
    show ?thesis
    proof (cases "get_next_node nd l")
      case None
      then show ?thesis using Suc.prems Inr res
        by (subst orch.simps) (simp add: flow_steps_done)
    next
      case (Some nxt)
      then have "flow_steps X n (Some nxt, sh1, w1) = Inr (None, sh', w')"
        using Suc.prems Inr res by simp
      then have "orch X nxt sh1 w1 = Some (Inr (sh', w'))" by (rule Suc.IH)
      then show ?thesis using Inr res Some by (subst orch.simps) simp
    qed
  qed
qed

text \<open>
  Claim C1, evaluated on the code.  Both runs start from the initial state, the oracle
  never affirms, and no planning attempt yields a plan, so every plan is the default
  scroll.  With a driver that raises on every call the flow never stops: it has no
  result.  With a driver that works, the flow stands at the finish node after 120 node
  runs with iteration 30 and the maximum-iterations message, but the finish node then
  stores the summary over it (lines 760 to 766): the run returns with the summary as its
  final message, not the maximum-iterations message.
\<close>

theorem capped_run_defects:
  "orch broken_world GetBrowserEnv (initial_shared ''t'') [] = None \<and>
   flow_steps calm_world 120 (Some GetBrowserEnv, initial_shared ''t'', []) =
     Inr (Some FinishNode, (calm_state 30)\<lparr>final_message := Some MaxIterationsReached\<rparr>,
          replicate 30 scroll_call) \<and>
   run_async calm_world (initial_shared ''t'') [] =
     Some (Inr (Finish, (calm_state 30)\<lparr>final_message := Some (Summary [])\<rparr>,
                replicate 30 scroll_call))"
proof -
  have o: "orch calm_world GetBrowserEnv (initial_shared ''t'') [] =
      Some (Inr ((calm_state 30)\<lparr>final_message := Some (Summary [])\<rparr>, replicate 30 scroll_call))"
    using calm_121 by (rule orch_flow_steps_done)
  have r: "run_async calm_world (initial_shared ''t'') [] =
     Some (Inr (Finish, (calm_state 30)\<lparr>final_message := Some (Summary [])\<rparr>,
                replicate 30 scroll_call))"
    by (simp add: run_async_def o agent_post_def calm_state_def)
  show ?thesis
    by (intro conjI) (rule broken_world_never_stops, rule calm_120, rule r)
qed

section \<open>Which driver calls the guard can stop\<close>

lemma call_method_unguarded:
  "m \<notin> set guarded_methods \<Longrightarrow>
   call_method body m t as kw b =
     (fst (body m as kw (page b)), b\<lparr>page := snd (body m as kw (page b))\<rparr>)"
  by (simp add: call_method_def split: prod.splits)

lemma call_method_repeatedly_unguarded:
  assumes "m \<notin> set guarded_methods"
    and "\<forall>as kw p. \<not> is_repeated_call (fst (body m as kw p))"
  shows "(\<forall>out \<in> set (fst (call_method_repeatedly body m as kw ts b)). \<not> is_repeated_call out) \<and>
         trackers (snd (call_method_repeatedly body m as kw ts b)) = trackers b"
proof (induction ts arbitrary: b)
  case Nil
  then show ?case by simp
next
  case (Cons t ts)
  let ?b' = "b\<lparr>page := snd (body m as kw (page b))\<rparr>"
  obtain outs b'' where r: "call_method_repeatedly body m as kw ts ?b' = (outs, b'')"
    by (cases "call_method_repeatedly body m as kw ts ?b'")
  from Cons[of ?b'] r have "(\<forall>out \<in> set outs. \<not> is_repeated_call out) \<and> trackers b'' = trackers b"
    by simp
  then show ?case using assms r
    by (simp add: call_method_unguarded)
qed

lemma call_method_repeatedly_guarded:
  "m \<in> set guarded_methods \<Longrightarrow>
   fst (call_method_repeatedly body m as kw ts b) =
     fst (call_repeatedly m (body m) as kw ts (trackers b m) (page b))"
proof (induction ts arbitrary: b)
  case Nil
  then show ?case by simp
next
  case (Cons t ts)
  obtain out tr' p' where w: "wrapper (trackers b m) m (body m) t as kw (page b) = (out, tr', p')"
    by (cases "wrapper (trackers b m) m (body m) t as kw (page b)")
  let ?b' = "b\<lparr>trackers := (trackers b)(m := tr'), page := p'\<rparr>"
  obtain outs b'' where r: "call_method_repeatedly body m as kw ts ?b' = (outs, b'')"
    by (cases "call_method_repeatedly body m as kw ts ?b'")
  obtain outs' tr'' p'' where r': "call_repeatedly m (body m) as kw ts tr' p' = (outs', tr'', p'')"
    by (cases "call_repeatedly m (body m) as kw ts tr' p'")
  from Cons.IH[OF Cons.prems, of ?b'] r r' have "outs = outs'" by simp
  then show ?case using w r r' Cons.prems
    by (simp add: call_method_def)
qed

lemma guarded_fourth_call:
  assumes "g \<in> set guarded_methods" and "within_window 30000 [t1, t2, t3, t4]"
    and "\<forall>p. \<not> is_raise (fst (body g as kw p))"
  shows "fst (call_method_repeatedly body g as kw [t1, t2, t3, t4] (new_browser p0)) ! 3 =
           RaisedRepeatedCall (mk_warning default_tracker g 3 as kw)"
proof -
  have "call_repeatedly g (body g) as kw [t1, t2, t3, t4] default_tracker p0 =
          (map (expected_outcome default_tracker g (body g) as kw p0 3 0) [0..<length [t1, t2, t3, t4]],
           default_tracker\<lparr>call_history := call_history default_tracker @ map (mk_call g as kw) (take (3 - 0) [t1, t2, t3, t4])\<rparr>,
           (exec_world (body g) as kw ^^ (min (length [t1, t2, t3, t4]) (3 - 0))) p0)"
    by (rule call_repeatedly_general)
       (use assms(2,3) in \<open>simp_all add: default_tracker_def new_tracker_def\<close>)
  then have "fst (call_repeatedly g (body g) as kw [t1, t2, t3, t4] default_tracker p0) =
      map (expected_outcome default_tracker g (body g) as kw p0 3 0) [0..<length [t1, t2, t3, t4]]"
    by (simp only: fst_conv)
  moreover have "map (expected_outcome default_tracker g (body g) as kw p0 3 0) [0..<length [t1, t2, t3, t4]] ! 3
      = expected_outcome default_tracker g (body g) as kw p0 3 0 3"
    by (subst nth_map) (simp_all add: numeral_3_eq_3)
  moreover have "expected_outcome default_tracker g (body g) as kw p0 3 0 3 =
      RaisedRepeatedCall (mk_warning default_tracker g 3 as kw)"
    by (simp add: expected_outcome_def)
  moreover have "fst (call_method_repeatedly body g as kw [t1, t2, t3, t4] (new_browser p0)) =
     fst (call_repeatedly g (body g) as kw [t1, t2, t3, t4] default_tracker p0)"
    using call_method_repeatedly_guarded[OF assms(1), of body as kw "[t1, t2, t3, t4]" "new_browser p0"]
    by (simp only: new_browser_def browser_automation.simps)
  ultimately show ?thesis by (simp only:)
qed

text \<open>
  Claim C10.  \<open>scroll_down\<close> and \<open>scroll_up\<close> are not wrapped: however often one of them
  is called with the same arguments, and whatever the clock readings, no call raises
  \<open>RepeatedCallError\<close> (the bodies themselves never raise it) and no tracker changes.  The
  planner's fallback plan is dispatched to \<open>scroll_down\<close> with the argument 300.  In
  contrast, each of \<open>click_element\<close>, \<open>input_text\<close>, \<open>click_to_upload\<close>, \<open>go_to_url\<close>,
  \<open>open_tab\<close>, \<open>close_tab\<close> and \<open>go_back\<close> is wrapped: on a new driver object the fourth
  of four identical calls within the window raises \<open>RepeatedCallError\<close>.
\<close>

theorem scroll_not_guarded:
  assumes "m = ''scroll_down'' \<or> m = ''scroll_up''"
    and "\<forall>as kw p. \<not> is_repeated_call (fst (body m as kw p))"
  shows "(\<forall>out \<in> set (fst (call_method_repeatedly body m as kw ts b)). \<not> is_repeated_call out) \<and>
         trackers (snd (call_method_repeatedly body m as kw ts b)) = trackers b \<and>
         exec_async X default_plan w =
           Inr (outcome_result (PStr ''scroll_down'') (PmDict [''pixel'' \<mapsto> PInt 300])
                  (fst (driver X ''scroll_down'' [PInt 300] w)),
                snd (driver X ''scroll_down'' [PInt 300] w)) \<and>
         (\<forall>g \<in> set [''click_element'', ''input_text'', ''click_to_upload'', ''go_to_url'',
                      ''open_tab'', ''close_tab'', ''go_back''].
            within_window 30000 [t1, t2, t3, t4] \<longrightarrow>
            (\<forall>p. \<not> is_raise (fst (body' g as' kw' p))) \<longrightarrow>
            fst (call_method_repeatedly body' g as' kw' [t1, t2, t3, t4] (new_browser p0)) ! 3 =
              RaisedRepeatedCall (mk_warning default_tracker g 3 as' kw'))"
proof -
  have ng: "m \<notin> set guarded_methods" using assms(1) by (auto simp: guarded_methods_def)
  have a: "(\<forall>out \<in> set (fst (call_method_repeatedly body m as kw ts b)). \<not> is_repeated_call out) \<and>
         trackers (snd (call_method_repeatedly body m as kw ts b)) = trackers b"
    using ng assms(2) by (rule call_method_repeatedly_unguarded)
  have g: "\<forall>g \<in> set [''click_element'', ''input_text'', ''click_to_upload'', ''go_to_url'',
                      ''open_tab'', ''close_tab'', ''go_back''].
            within_window 30000 [t1, t2, t3, t4] \<longrightarrow>
            (\<forall>p. \<not> is_raise (fst (body' g as' kw' p))) \<longrightarrow>
            fst (call_method_repeatedly body' g as' kw' [t1, t2, t3, t4] (new_browser p0)) ! 3 =
              RaisedRepeatedCall (mk_warning default_tracker g 3 as' kw')"
  proof (intro ballI impI)
    fix g
    assume gin: "g \<in> set [''click_element'', ''input_text'', ''click_to_upload'', ''go_to_url'',
                      ''open_tab'', ''close_tab'', ''go_back'']"
      and win: "within_window 30000 [t1, t2, t3, t4]"
      and ret: "\<forall>p. \<not> is_raise (fst (body' g as' kw' p))"
    from gin have "g \<in> set guarded_methods" by (auto simp: guarded_methods_def)
    then show "fst (call_method_repeatedly body' g as' kw' [t1, t2, t3, t4] (new_browser p0)) ! 3 =
              RaisedRepeatedCall (mk_warning default_tracker g 3 as' kw')"
      using win ret by (rule guarded_fourth_call)
  qed
  from a have a1: "\<forall>out \<in> set (fst (call_method_repeatedly body m as kw ts b)). \<not> is_repeated_call out"
    and a2: "trackers (snd (call_method_repeatedly body m as kw ts b)) = trackers b"
    by blast+
  show ?thesis
    by (intro conjI) (rule a1, rule a2, rule exec_async_default_plan, rule g)
qed

theorem scroll_not_guarded_witness:
  "fst (call_method_repeatedly counting_body ''scroll_down'' [PInt 300] fmempty
          [0, 1, 2, 3, 4, 5] (new_browser 0)) = replicate 6 (Returned PNone) \<and>
   trackers (snd (call_method_repeatedly counting_body ''scroll_down'' [PInt 300] fmempty
          [0, 1, 2, 3, 4, 5] (new_browser 0))) = trackers (new_browser (0::nat)) \<and>
   fst (call_method_repeatedly counting_body ''click_element'' [PStr ''//a''] fmempty
          [0, 1, 2, 3] (new_browser 0)) ! 3 =
     RaisedRepeatedCall (mk_warning default_tracker ''click_element'' 3 [PStr ''//a''] fmempty)"
proof -
  have h1: "''scroll_down'' = ''scroll_down'' \<or> ''scroll_down'' = ''scroll_up''" by simp
  have h2: "\<forall>as kw p. \<not> is_repeated_call (fst (counting_body ''scroll_down'' as kw p))"
    by (simp add: counting_body_def)
  have h3: "within_window 30000 [0, 1, 2, 3]" by simp
  have h4: "\<forall>p. \<not> is_raise (fst (counting_body ''click_element'' [PStr ''//a''] fmempty p))"
    by (simp add: counting_body_def)
  note inst = scroll_not_guarded [where m = "''scroll_down''" and body = counting_body, OF h1 h2,
      where as = "[PInt 300]" and kw = fmempty and ts = "[0, 1, 2, 3, 4, 5]"
      and b = "new_browser 0" and ?t1.0 = 0 and ?t2.0 = 1 and ?t3.0 = 2 and ?t4.0 = 3
      and body' = counting_body and as' = "[PStr ''//a'']" and kw' = fmempty and ?p0.0 = 0
      and X = calm_world and w = "[]"]
  have s0: "fst (call_method_repeatedly counting_body ''scroll_down'' [PInt 300] fmempty
          [0, 1, 2, 3, 4, 5] (new_browser 0)) = replicate 6 (Returned PNone)"
    by (simp add: call_method_def guarded_methods_def counting_body_def new_browser_def
          numeral_eq_Suc)
  have s1: "trackers (snd (call_method_repeatedly counting_body ''scroll_down'' [PInt 300] fmempty
          [0, 1, 2, 3, 4, 5] (new_browser 0))) = trackers (new_browser (0::nat))"
    using inst by (elim conjE)
  have s2: "\<forall>g \<in> set [''click_element'', ''input_text'', ''click_to_upload'', ''go_to_url'',
                      ''open_tab'', ''close_tab'', ''go_back''].
            within_window 30000 [0, 1, 2, 3] \<longrightarrow>
            (\<forall>p. \<not> is_raise (fst (counting_body g [PStr ''//a''] fmempty p))) \<longrightarrow>
            fst (call_method_repeatedly counting_body g [PStr ''//a''] fmempty [0, 1, 2, 3]
                   (new_browser 0)) ! 3 =
              RaisedRepeatedCall (mk_warning default_tracker g 3 [PStr ''//a''] fmempty)"
    using inst by (elim conjE)
  have s3: "fst (call_method_repeatedly counting_body ''click_element'' [PStr ''//a''] fmempty
          [0, 1, 2, 3] (new_browser 0)) ! 3 =
     RaisedRepeatedCall (mk_warning default_tracker ''click_element'' 3 [PStr ''//a''] fmempty)"
  proof -
    have gin: "''click_element'' \<in> set [''click_element'', ''input_text'', ''click_to_upload'',
        ''go_to_url'', ''open_tab'', ''close_tab'', ''go_back'']"
      by simp
    show ?thesis by (rule s2 [rule_format, OF gin h3 h4 [rule_format]])
  qed
  show ?thesis by (intro conjI) (rule s0, rule s1, rule s3)
qed

end
